theory Spec2Isabelle
  imports Complex_Main "HOL-Library.AList"
begin

section \<open>DRAIN voucher validation and channel claims\<close>

text \<open>
  A shallow embedding of the provider-side payment core: the class \<open>VoucherStorage\<close>
  (storage.ts) and the class \<open>DrainService\<close> (drain.ts).

  Conventions of the embedding.
  \<^item> A \<open>bigint\<close> is an \<open>int\<close>. A \<open>number\<close> that the code uses as a clock value or a
    count (\<open>Date.now()\<close>, \<open>expiry\<close>, \<open>bufferSeconds\<close>) is an \<open>int\<close> as well, and
    \<open>Number(x)\<close> of a \<open>bigint\<close> is \<open>x\<close>: the rounding of values beyond \<open>2^53\<close> is not
    modelled. One call of a method sees one value of \<open>Date.now()\<close>.
  \<^item> A string is a list of 8-bit characters, read as code points below 256.
  \<^item> A thrown value is an element of \<open>exn\<close>; a call that may throw returns \<open>exn + 'a\<close>,
    and every \<open>try\<close>/\<open>catch\<close> of the source is a \<open>case\<close> on that sum.
  \<^item> The services outside the repository (the contract read, the signature check, the
    claim transaction) are fields of the record \<open>DrainService\<close>; the clock is an
    argument.
  \<^item> \<open>save()\<close> rewrites the file from the in-memory data and does not change the data;
    the embedding keeps the in-memory data only.
  \<^item> Objects are copied by value. The source shares one \<open>StoredVoucher\<close> object between
    the voucher list and \<open>lastVoucher\<close> of its channel; the only fields of \<open>lastVoucher\<close>
    that are ever read (\<open>nonce\<close>) are never written after creation. The source also
    returns the stored \<open>ChannelState\<close> object itself from a validation of a known channel;
    a channel snapshot is used here only where it is a new object or is handed to
    \<open>storeVoucher\<close> before anything else touches the stored record.
\<close>

subsection \<open>Thrown values and the built-in conversions\<close>

type_synonym Hash = string
type_synonym Hex = string
type_synonym Address = string

datatype exn =
    Error string    \<comment> \<open>an instance of \<open>Error\<close>, with its \<open>message\<close>\<close>
  | NonError        \<comment> \<open>any other thrown value\<close>

definition isStrWhiteSpaceChar :: "char \<Rightarrow> bool" where
  "isStrWhiteSpaceChar c = ((of_char c :: int) \<in> {9, 10, 11, 12, 13, 32, 160})"

definition trimString :: "string \<Rightarrow> string" where
  "trimString s = rev (dropWhile isStrWhiteSpaceChar (rev (dropWhile isStrWhiteSpaceChar s)))"

definition digitVal :: "char \<Rightarrow> int option" where
  "digitVal c =
     (let n = (of_char c :: int) in
      if 48 \<le> n \<and> n \<le> 57 then Some (n - 48)
      else if 97 \<le> n \<and> n \<le> 102 then Some (n - 87)
      else if 65 \<le> n \<and> n \<le> 70 then Some (n - 55)
      else None)"

fun parseDigits :: "int \<Rightarrow> string \<Rightarrow> int \<Rightarrow> int option" where
  "parseDigits b [] acc = Some acc"
| "parseDigits b (c # cs) acc =
     (case digitVal c of
        None \<Rightarrow> None
      | Some d \<Rightarrow> if d < b then parseDigits b cs (acc * b + d) else None)"

definition parseNonEmpty :: "int \<Rightarrow> string \<Rightarrow> int option" where
  "parseNonEmpty b ds = (if ds = [] then None else parseDigits b ds 0)"

text \<open>
  \<open>StringToBigInt\<close> of ECMAScript: surrounding white space is dropped, the empty string
  is \<open>0n\<close>, a decimal literal may carry a sign, and the prefixes \<open>0x\<close>, \<open>0o\<close>, \<open>0b\<close>
  (either case) select another base and allow no sign.
\<close>

definition StringToBigInt :: "string \<Rightarrow> int option" where
  "StringToBigInt s =
     (let t = trimString s in
      if t = [] then Some 0
      else if take 2 t \<in> {''0x'', ''0X''} then parseNonEmpty 16 (drop 2 t)
      else if take 2 t \<in> {''0o'', ''0O''} then parseNonEmpty 8 (drop 2 t)
      else if take 2 t \<in> {''0b'', ''0B''} then parseNonEmpty 2 (drop 2 t)
      else if hd t = CHR ''+'' then parseNonEmpty 10 (tl t)
      else if hd t = CHR ''-'' then map_option uminus (parseNonEmpty 10 (tl t))
      else parseNonEmpty 10 t)"

text \<open>
  \<open>BigInt(s)\<close> on a string: a \<open>SyntaxError\<close> (an \<open>Error\<close>) when the string is no integer
  literal; the message is the one of V8.
\<close>

definition BigInt :: "string \<Rightarrow> exn + int" where
  "BigInt s =
     (case StringToBigInt s of
        None \<Rightarrow> Inl (Error (''Cannot convert '' @ s @ '' to a BigInt''))
      | Some n \<Rightarrow> Inr n)"

definition toLowerChar :: "char \<Rightarrow> char" where
  "toLowerChar c =
     (let n = (of_char c :: int) in
      if (65 \<le> n \<and> n \<le> 90) \<or> (192 \<le> n \<and> n \<le> 222 \<and> n \<noteq> 215)
      then char_of (n + 32) else c)"

definition toLowerCase :: "string \<Rightarrow> string" where
  "toLowerCase s = map toLowerChar s"

subsection \<open>Data model (types.ts)\<close>

text \<open>
  The tuple that the contract's \<open>getChannel\<close> returns (constants.ts); the source reads
  it untyped.
\<close>

record ChannelData =
  consumer :: Address
  provider :: Address
  deposit :: int
  claimed :: int
  expiry :: int

text \<open>
  The fields of \<open>VoucherHeader\<close> are declared as strings. The casts of the parser are
  erased at run time, so the record is polymorphic in what the fields hold: the parser
  returns the JSON values, the validator is declared on strings.
\<close>

record 'a VoucherHeader =
  channelId :: 'a
  amount :: 'a
  nonce :: 'a
  signature :: 'a

record StoredVoucher =
  channelId :: Hash
  amount :: int
  nonce :: int
  signature :: Hex
  consumer :: string
  receivedAt :: int
  claimed :: bool
  claimedAt :: "int option"
  claimTxHash :: "Hash option"

text \<open>
  \<open>expiry\<close> is a \<open>number\<close>; a record written before the field existed has none, which
  the source tests with \<open>!channel.expiry\<close>, as it does the value \<open>0\<close>. Both are \<open>0\<close> here.
\<close>

record ChannelState =
  channelId :: Hash
  consumer :: string
  deposit :: int
  totalCharged :: int
  expiry :: int
  lastVoucher :: "StoredVoucher option"
  createdAt :: int
  lastActivityAt :: int

subsection \<open>VoucherStorage (storage.ts)\<close>

text \<open>
  \<open>channels\<close> is a JavaScript object used as a dictionary: an association list in
  insertion order, without duplicate keys. Channel ids are hex strings, so no key is the
  name of a property that every object inherits.
\<close>

record StorageData =
  vouchers :: "StoredVoucher list"
  channels :: "(Hash \<times> ChannelState) list"
  totalEarned :: string
  totalClaimed :: string

text \<open>The data \<open>load()\<close> returns when there is no file yet.\<close>

definition load_fresh :: StorageData where
  "load_fresh = \<lparr>vouchers = [], channels = [], totalEarned = ''0'', totalClaimed = ''0''\<rparr>"

text \<open>\<open>VoucherStorage.storeVoucher\<close>.\<close>

definition storage_storeVoucher :: "StorageData \<Rightarrow> StoredVoucher \<Rightarrow> StorageData" where
  "storage_storeVoucher d voucher = d\<lparr>vouchers := vouchers d @ [voucher]\<rparr>"

definition getChannel :: "StorageData \<Rightarrow> Hash \<Rightarrow> ChannelState option" where
  "getChannel d cid = map_of (channels d) cid"

definition updateChannel :: "StorageData \<Rightarrow> Hash \<Rightarrow> ChannelState \<Rightarrow> StorageData" where
  "updateChannel d cid state = d\<lparr>channels := AList.update cid state (channels d)\<rparr>"

definition getUnclaimedVouchers :: "StorageData \<Rightarrow> StoredVoucher list" where
  "getUnclaimedVouchers d = filter (\<lambda>v. \<not> StoredVoucher.claimed v) (vouchers d)"

text \<open>
  \<open>getHighestVoucherPerChannel\<close>: the \<open>Map\<close> is an association list in insertion
  order; \<open>Map.set\<close> on a present key keeps the key's position.
\<close>

fun highest_loop ::
  "StoredVoucher list \<Rightarrow> (Hash \<times> StoredVoucher) list \<Rightarrow> (Hash \<times> StoredVoucher) list" where
  "highest_loop [] highest = highest"
| "highest_loop (voucher # rest) highest =
     (if StoredVoucher.claimed voucher then highest_loop rest highest
      else
        (case map_of highest (StoredVoucher.channelId voucher) of
           None \<Rightarrow>
             highest_loop rest (AList.update (StoredVoucher.channelId voucher) voucher highest)
         | Some existing \<Rightarrow>
             if StoredVoucher.amount voucher > StoredVoucher.amount existing
             then highest_loop rest
                    (AList.update (StoredVoucher.channelId voucher) voucher highest)
             else highest_loop rest highest))"

definition getHighestVoucherPerChannel :: "StorageData \<Rightarrow> (Hash \<times> StoredVoucher) list" where
  "getHighestVoucherPerChannel d = highest_loop (vouchers d) []"

text \<open>
  \<open>markClaimed\<close>: the loop visits every voucher; \<open>now\<close> is the value of \<open>Date.now()\<close>
  during the call.
\<close>

primrec markClaimed_loop :: "int \<Rightarrow> Hash \<Rightarrow> Hash \<Rightarrow> StoredVoucher list \<Rightarrow> StoredVoucher list" where
  "markClaimed_loop now cid txHash [] = []"
| "markClaimed_loop now cid txHash (voucher # rest) =
     (if StoredVoucher.channelId voucher = cid \<and> \<not> StoredVoucher.claimed voucher
      then voucher\<lparr>claimed := True, claimedAt := Some now, claimTxHash := Some txHash\<rparr>
      else voucher) # markClaimed_loop now cid txHash rest"

definition markClaimed :: "int \<Rightarrow> StorageData \<Rightarrow> Hash \<Rightarrow> Hash \<Rightarrow> StorageData" where
  "markClaimed now d cid txHash = d\<lparr>vouchers := markClaimed_loop now cid txHash (vouchers d)\<rparr>"

record Stats =
  totalVouchers :: nat
  unclaimedVouchers :: nat
  activeChannels :: nat
  totalEarned :: int

definition getStats :: "StorageData \<Rightarrow> exn + Stats" where
  "getStats d =
     (case BigInt (StorageData.totalEarned d) of
        Inl e \<Rightarrow> Inl e
      | Inr earned \<Rightarrow>
          Inr \<lparr>totalVouchers = length (vouchers d),
               unclaimedVouchers = length (filter (\<lambda>v. \<not> StoredVoucher.claimed v) (vouchers d)),
               activeChannels = length (channels d),
               totalEarned = earned\<rparr>)"

text \<open>The mutating operations of the storage, as requests.\<close>

datatype storage_op =
    StoreVoucher StoredVoucher
  | UpdateChannel Hash ChannelState
  | MarkClaimed int Hash Hash

fun apply_storage_op :: "StorageData \<Rightarrow> storage_op \<Rightarrow> StorageData" where
  "apply_storage_op d (StoreVoucher v) = storage_storeVoucher d v"
| "apply_storage_op d (UpdateChannel cid state) = updateChannel d cid state"
| "apply_storage_op d (MarkClaimed now cid txHash) = markClaimed now d cid txHash"

subsection \<open>DrainService (drain.ts)\<close>

text \<open>
  The service object: the configuration it reads, its own address, and the three calls
  that leave the process. \<open>readContract_getChannel\<close> is \<open>publicClient.readContract\<close> with
  \<open>functionName: 'getChannel'\<close>; \<open>verifyTypedData\<close> takes the signer's address, the chain
  id and the verifying contract of the domain, the message \<open>{channelId, amount, nonce}\<close>
  and the signature; \<open>writeContract_claim\<close> is \<open>walletClient.writeContract\<close> with
  \<open>functionName: 'claim'\<close> and returns the transaction hash.
\<close>

record DrainService =
  chainId :: int
  claimThreshold :: int
  account_address :: Address
  contractAddress :: Address
  readContract_getChannel :: "Hash \<Rightarrow> exn + ChannelData"
  verifyTypedData :: "Address \<Rightarrow> int \<Rightarrow> Address \<Rightarrow> Hash \<Rightarrow> int \<Rightarrow> int \<Rightarrow> Hex \<Rightarrow> exn + bool"
  writeContract_claim :: "Hash \<Rightarrow> int \<Rightarrow> int \<Rightarrow> Hex \<Rightarrow> exn + Hash"

record ValidationResult =
  valid :: bool
  error :: "string option"
  channel :: "ChannelState option"
  newTotal :: "int option"

definition zeroAddress :: Address where
  "zeroAddress = ''0x0000000000000000000000000000000000000000''"

text \<open>The \<open>catch\<close> block of \<open>validateVoucher\<close>.\<close>

definition caught :: "exn \<Rightarrow> ValidationResult" where
  "caught e =
     \<lparr>valid = False,
      error = Some (case e of Error message \<Rightarrow> message | NonError \<Rightarrow> ''validation_error''),
      channel = None, newTotal = None\<rparr>"

definition reject :: "string \<Rightarrow> ChannelState option \<Rightarrow> ValidationResult" where
  "reject reason cs = \<lparr>valid = False, error = Some reason, channel = cs, newTotal = None\<rparr>"

text \<open>
  Step 4 of \<open>validateVoucher\<close>: the stored channel, or a new one built from the contract's
  answer. The backfill of \<open>expiry\<close> writes into the stored object, so the storage changes
  with it.
\<close>

definition localChannelState ::
  "int \<Rightarrow> StorageData \<Rightarrow> Hash \<Rightarrow> ChannelData \<Rightarrow> ChannelState \<times> StorageData" where
  "localChannelState now d cid channelData =
     (case getChannel d cid of
        None \<Rightarrow>
          (\<lparr>channelId = cid, consumer = ChannelData.consumer channelData,
            deposit = ChannelData.deposit channelData, totalCharged = 0,
            expiry = ChannelData.expiry channelData, lastVoucher = None,
            createdAt = now, lastActivityAt = now\<rparr>, d)
      | Some channelState \<Rightarrow>
          if ChannelState.expiry channelState = 0
          then (channelState\<lparr>expiry := ChannelData.expiry channelData\<rparr>,
                updateChannel d cid (channelState\<lparr>expiry := ChannelData.expiry channelData\<rparr>))
          else (channelState, d))"

definition validateVoucher ::
  "DrainService \<Rightarrow> int \<Rightarrow> StorageData \<Rightarrow> string VoucherHeader \<Rightarrow> int
     \<Rightarrow> ValidationResult \<times> StorageData" where
  "validateVoucher svc now d voucher requiredAmount =
     (case BigInt (VoucherHeader.amount voucher) of
        Inl e \<Rightarrow> (caught e, d)
      | Inr vAmount \<Rightarrow>
     (case BigInt (VoucherHeader.nonce voucher) of
        Inl e \<Rightarrow> (caught e, d)
      | Inr vNonce \<Rightarrow>
     (case readContract_getChannel svc (VoucherHeader.channelId voucher) of
        Inl e \<Rightarrow> (caught e, d)
      | Inr channelData \<Rightarrow>
          if ChannelData.consumer channelData = zeroAddress
          then (reject ''channel_not_found'' None, d)
          else if toLowerCase (provider channelData) \<noteq> toLowerCase (account_address svc)
          then (reject ''wrong_provider'' None, d)
          else
            (case localChannelState now d (VoucherHeader.channelId voucher) channelData of
               (channelState, d') \<Rightarrow>
                 if vAmount < totalCharged channelState + requiredAmount
                 then (reject ''insufficient_funds'' (Some channelState), d')
                 else if vAmount > ChannelData.deposit channelData
                 then (reject ''exceeds_deposit'' (Some channelState), d')
                 else if (case lastVoucher channelState of
                            None \<Rightarrow> False
                          | Some lv \<Rightarrow> vNonce \<le> StoredVoucher.nonce lv)
                 then (reject ''invalid_nonce'' (Some channelState), d')
                 else
                   (case verifyTypedData svc (ChannelData.consumer channelData) (chainId svc)
                           (contractAddress svc) (VoucherHeader.channelId voucher) vAmount vNonce
                           (VoucherHeader.signature voucher) of
                      Inl e \<Rightarrow> (caught e, d')
                    | Inr isValid \<Rightarrow>
                        if \<not> isValid then (reject ''invalid_signature'' None, d')
                        else (\<lparr>valid = True, error = None, channel = Some channelState,
                               newTotal = Some vAmount\<rparr>, d'))))))"

text \<open>
  \<open>storeVoucher\<close> has no \<open>try\<close>: a \<open>BigInt\<close> that throws leaves the method.
\<close>

definition storeVoucher ::
  "int \<Rightarrow> StorageData \<Rightarrow> string VoucherHeader \<Rightarrow> ChannelState \<Rightarrow> int \<Rightarrow> exn + StorageData" where
  "storeVoucher now d voucher channelState cost =
     (case BigInt (VoucherHeader.amount voucher) of
        Inl e \<Rightarrow> Inl e
      | Inr vAmount \<Rightarrow>
     (case BigInt (VoucherHeader.nonce voucher) of
        Inl e \<Rightarrow> Inl e
      | Inr vNonce \<Rightarrow>
          (let storedVoucher =
                 \<lparr>StoredVoucher.channelId = VoucherHeader.channelId voucher,
                  amount = vAmount, nonce = vNonce,
                  signature = VoucherHeader.signature voucher,
                  consumer = ChannelState.consumer channelState,
                  receivedAt = now, claimed = False, claimedAt = None, claimTxHash = None\<rparr>;
               channelState' =
                 channelState\<lparr>totalCharged := totalCharged channelState + cost,
                              lastVoucher := Some storedVoucher,
                              lastActivityAt := now\<rparr>
           in Inr (updateChannel (storage_storeVoucher d storedVoucher)
                     (VoucherHeader.channelId voucher) channelState'))))"

text \<open>
  The two-phase use of the service: a charge is committed with \<open>storeVoucher\<close> only after
  \<open>validateVoucher\<close> has accepted the same voucher for the same cost, on the channel
  snapshot that the validation returned, with nothing between the two calls. \<open>None\<close>: the
  charge was not committed. The snapshot is then either a new object or the stored record
  as it is at the time of the commit, so adding the cost to the snapshot, as the
  embedding does, is what the source does to the object.
\<close>

definition validate_then_store ::
  "DrainService \<Rightarrow> int \<Rightarrow> StorageData \<Rightarrow> string VoucherHeader \<Rightarrow> int \<Rightarrow> StorageData option" where
  "validate_then_store svc now d voucher cost =
     (case validateVoucher svc now d voucher cost of
        (r, d') \<Rightarrow>
          if valid r then
            (case channel r of
               None \<Rightarrow> None
             | Some channelState \<Rightarrow>
                 (case storeVoucher now d' voucher channelState cost of
                    Inl e \<Rightarrow> None
                  | Inr d'' \<Rightarrow> Some d''))
          else None)"

text \<open>A sequence of committed charges, each with the clock value of its request.\<close>

fun run_charges ::
  "DrainService \<Rightarrow> StorageData \<Rightarrow> (int \<times> string VoucherHeader \<times> int) list
     \<Rightarrow> StorageData option" where
  "run_charges svc d [] = Some d"
| "run_charges svc d ((now, voucher, cost) # rest) =
     (case validate_then_store svc now d voucher cost of
        None \<Rightarrow> None
      | Some d' \<Rightarrow> run_charges svc d' rest)"

subsection \<open>Claiming\<close>

text \<open>
  What a claim run leaves behind: the list it returns, the storage, and the \<open>claim\<close>
  transactions it submitted, in order (the arguments of each \<open>writeContract\<close> call).
  The loop walks the candidates computed before it starts; \<open>markClaimed\<close> writes only to
  vouchers of the channel just claimed, and every candidate is of another channel.
\<close>

record ClaimRun =
  txHashes :: "Hash list"
  storage :: StorageData
  attempts :: "(Hash \<times> int \<times> int \<times> Hex) list"

definition claim_args :: "StoredVoucher \<Rightarrow> Hash \<times> int \<times> int \<times> Hex" where
  "claim_args voucher =
     (StoredVoucher.channelId voucher, StoredVoucher.amount voucher,
      StoredVoucher.nonce voucher, StoredVoucher.signature voucher)"

text \<open>The \<open>writeContract\<close> call of a claim, and the \<open>try\<close>/\<open>catch\<close> around it.\<close>

definition submit_claim :: "DrainService \<Rightarrow> StoredVoucher \<Rightarrow> exn + Hash" where
  "submit_claim svc voucher =
     writeContract_claim svc (StoredVoucher.channelId voucher) (StoredVoucher.amount voucher)
       (StoredVoucher.nonce voucher) (StoredVoucher.signature voucher)"

definition try_claim :: "DrainService \<Rightarrow> int \<Rightarrow> Hash \<Rightarrow> StoredVoucher \<Rightarrow> ClaimRun \<Rightarrow> ClaimRun" where
  "try_claim svc now cid voucher run =
     (case submit_claim svc voucher of
        Inr hash \<Rightarrow>
          \<lparr>txHashes = txHashes run @ [hash],
           storage = markClaimed now (storage run) cid hash,
           attempts = attempts run @ [claim_args voucher]\<rparr>
      | Inl e \<Rightarrow> run\<lparr>attempts := attempts run @ [claim_args voucher]\<rparr>)"

fun claimPayments_loop ::
  "DrainService \<Rightarrow> int \<Rightarrow> bool \<Rightarrow> (Hash \<times> StoredVoucher) list \<Rightarrow> ClaimRun \<Rightarrow> ClaimRun" where
  "claimPayments_loop svc now forceAll [] run = run"
| "claimPayments_loop svc now forceAll ((cid, voucher) # rest) run =
     (if \<not> forceAll \<and> StoredVoucher.amount voucher < claimThreshold svc
      then claimPayments_loop svc now forceAll rest run
      else claimPayments_loop svc now forceAll rest (try_claim svc now cid voucher run))"

definition claimPayments :: "DrainService \<Rightarrow> int \<Rightarrow> bool \<Rightarrow> StorageData \<Rightarrow> ClaimRun" where
  "claimPayments svc now forceAll d =
     claimPayments_loop svc now forceAll (getHighestVoucherPerChannel d)
       \<lparr>txHashes = [], storage = d, attempts = []\<rparr>"

text \<open>
  \<open>claimExpiring\<close>: \<open>now\<close> is \<open>Date.now()\<close> in milliseconds, \<open>nowSeconds\<close> is
  \<open>Math.floor(Date.now() / 1000)\<close>.
\<close>

fun claimExpiring_loop ::
  "DrainService \<Rightarrow> int \<Rightarrow> int \<Rightarrow> int \<Rightarrow> (Hash \<times> StoredVoucher) list \<Rightarrow> ClaimRun \<Rightarrow> ClaimRun" where
  "claimExpiring_loop svc now nowSeconds bufferSeconds [] run = run"
| "claimExpiring_loop svc now nowSeconds bufferSeconds ((cid, voucher) # rest) run =
     (case getChannel (storage run) cid of
        None \<Rightarrow> claimExpiring_loop svc now nowSeconds bufferSeconds rest run
      | Some ch \<Rightarrow>
          if ChannelState.expiry ch = 0
          then claimExpiring_loop svc now nowSeconds bufferSeconds rest run
          else if ChannelState.expiry ch - nowSeconds > bufferSeconds
          then claimExpiring_loop svc now nowSeconds bufferSeconds rest run
          else if StoredVoucher.amount voucher \<le> 0
          then claimExpiring_loop svc now nowSeconds bufferSeconds rest run
          else claimExpiring_loop svc now nowSeconds bufferSeconds rest
                 (try_claim svc now cid voucher run))"

definition claimExpiring :: "DrainService \<Rightarrow> int \<Rightarrow> int \<Rightarrow> StorageData \<Rightarrow> ClaimRun" where
  "claimExpiring svc now bufferSeconds d =
     claimExpiring_loop svc now (now div 1000) bufferSeconds (getHighestVoucherPerChannel d)
       \<lparr>txHashes = [], storage = d, attempts = []\<rparr>"

subsection \<open>The voucher header\<close>

text \<open>
  \<open>parseVoucherHeader\<close> starts with \<open>JSON.parse(header)\<close>. The embedding takes the outcome
  of that call: the thrown \<open>SyntaxError\<close>, or the value. An object is the list of its own
  properties.
\<close>

datatype json =
    JNull
  | JBool bool
  | JNumber rat
  | JString string
  | JArray "json list"
  | JObject "(string \<times> json) list"

text \<open>\<open>!x\<close> is \<open>\<not> truthy x\<close> for a value \<open>x\<close>; \<open>undefined\<close> is falsy as well.\<close>

fun truthy :: "json \<Rightarrow> bool" where
  "truthy JNull = False"
| "truthy (JBool b) = b"
| "truthy (JNumber q) = (q \<noteq> 0)"
| "truthy (JString s) = (s \<noteq> [])"
| "truthy (JArray xs) = True"
| "truthy (JObject ps) = True"

text \<open>
  \<open>parsed.name\<close> for one of the four names: a \<open>TypeError\<close> on \<open>null\<close>, the own property on
  an object, \<open>undefined\<close> (here \<open>None\<close>) on every other value: no prototype has these
  names.
\<close>

fun getProperty :: "json \<Rightarrow> string \<Rightarrow> exn + json option" where
  "getProperty JNull name = Inl (Error ''Cannot read properties of null'')"
| "getProperty (JObject ps) name = Inr (map_of ps name)"
| "getProperty other name = Inr None"

definition parseVoucherHeader :: "exn + json \<Rightarrow> json VoucherHeader option" where
  "parseVoucherHeader parse_result =
     (case parse_result of
        Inl e \<Rightarrow> None
      | Inr parsed \<Rightarrow>
          (case getProperty parsed ''channelId'' of
             Inl e \<Rightarrow> None
           | Inr None \<Rightarrow> None
           | Inr (Some cid) \<Rightarrow>
               if \<not> truthy cid then None
               else
          (case getProperty parsed ''amount'' of
             Inl e \<Rightarrow> None
           | Inr None \<Rightarrow> None
           | Inr (Some amt) \<Rightarrow>
               if \<not> truthy amt then None
               else
          (case getProperty parsed ''nonce'' of
             Inl e \<Rightarrow> None
           | Inr None \<Rightarrow> None
           | Inr (Some non) \<Rightarrow>
               if \<not> truthy non then None
               else
          (case getProperty parsed ''signature'' of
             Inl e \<Rightarrow> None
           | Inr None \<Rightarrow> None
           | Inr (Some sig) \<Rightarrow>
               if \<not> truthy sig then None
               else Some \<lparr>VoucherHeader.channelId = cid, amount = amt,
                          nonce = non, signature = sig\<rparr>)))))"

subsection \<open>The order of the checks, in the words of the specification\<close>

text \<open>
  The specification lists the checks of \<open>validate\<close> as numbered steps, each with its
  reason. A check is a pair of the reason and whether the check fails; the verdict is the
  reason of the first failing check.
\<close>

definition first_failing :: "(string \<times> bool) list \<Rightarrow> string option" where
  "first_failing checks = map_option fst (find snd checks)"

subsection \<open>Scenarios\<close>

text \<open>
  A provider on chain 137 whose contract knows one kind of channel: deposit \<open>1000000\<close>,
  opened for this provider. A signature verifies when it is the string \<open>0xgood\<close>. The
  contract's \<open>claim\<close> reverts for channel \<open>0xb2\<close> and succeeds for every other channel.
\<close>

definition demo_channelData :: ChannelData where
  "demo_channelData =
     \<lparr>ChannelData.consumer = ''0xC0ffee'', provider = ''0xAbC123'',
      ChannelData.deposit = 1000000, ChannelData.claimed = 0,
      ChannelData.expiry = 1700003600\<rparr>"

definition demo_service :: DrainService where
  "demo_service =
     \<lparr>chainId = 137, claimThreshold = 10000000,
      account_address = ''0xabc123'', contractAddress = ''0x1C1918'',
      readContract_getChannel = (\<lambda>cid. Inr demo_channelData),
      verifyTypedData = (\<lambda>signer chain contract cid amt non sig. Inr (sig = ''0xgood'')),
      writeContract_claim =
        (\<lambda>cid amt non sig.
           if cid = ''0xb2'' then Inl (Error ''execution reverted'') else Inr (''0xtx'' @ cid))\<rparr>"

definition demo_voucher :: "string \<Rightarrow> string \<Rightarrow> string VoucherHeader" where
  "demo_voucher amt non =
     \<lparr>VoucherHeader.channelId = ''0xa1'', amount = amt, nonce = non, signature = ''0xgood''\<rparr>"

text \<open>
  A storage with four channels at the clock value \<open>1700000000000\<close> (milliseconds).
  Channel \<open>0xa1\<close> holds two unclaimed vouchers of the same amount and expires in 1800
  seconds, \<open>0xb2\<close> expires in 600 seconds, \<open>0xc3\<close> in 7200 seconds, and the record of
  \<open>0xd4\<close> has expiry \<open>0\<close>. Every amount is below the claim threshold of \<open>demo_service\<close>.
\<close>

definition mk_voucher :: "Hash \<Rightarrow> int \<Rightarrow> int \<Rightarrow> StoredVoucher" where
  "mk_voucher cid amt non =
     \<lparr>StoredVoucher.channelId = cid, amount = amt, nonce = non, signature = ''0xgood'',
      consumer = ''0xC0ffee'', receivedAt = 0, claimed = False, claimedAt = None,
      claimTxHash = None\<rparr>"

definition mk_channel :: "Hash \<Rightarrow> int \<Rightarrow> ChannelState" where
  "mk_channel cid expires =
     \<lparr>channelId = cid, consumer = ''0xC0ffee'', deposit = 1000000, totalCharged = 0,
      expiry = expires, lastVoucher = None, createdAt = 0, lastActivityAt = 0\<rparr>"

definition demo_now :: int where
  "demo_now = 1700000000000"

definition demo_store :: StorageData where
  "demo_store =
     \<lparr>vouchers =
        [mk_voucher ''0xa1'' 100 1, mk_voucher ''0xa1'' 100 2, mk_voucher ''0xb2'' 50 1,
         mk_voucher ''0xc3'' 70 1, mk_voucher ''0xd4'' 5 1],
      channels =
        [(''0xa1'', mk_channel ''0xa1'' 1700001800), (''0xb2'', mk_channel ''0xb2'' 1700000600),
         (''0xc3'', mk_channel ''0xc3'' 1700007200), (''0xd4'', mk_channel ''0xd4'' 0)],
      totalEarned = ''0'', totalClaimed = ''0''\<rparr>"

subsection \<open>Auxiliary functions of the proofs\<close>

text \<open>
  The entry of one channel followed through the loop of \<open>getHighestVoucherPerChannel\<close>,
  and the vouchers of that channel the loop does not skip.
\<close>

fun pick :: "StoredVoucher option \<Rightarrow> StoredVoucher list \<Rightarrow> StoredVoucher option" where
  "pick cur [] = cur"
| "pick cur (v # vs) =
     (case cur of
        None \<Rightarrow> pick (Some v) vs
      | Some e \<Rightarrow> if StoredVoucher.amount v > StoredVoucher.amount e then pick (Some v) vs
                  else pick cur vs)"

definition unclaimed_of :: "Hash \<Rightarrow> StoredVoucher list \<Rightarrow> StoredVoucher list" where
  "unclaimed_of cid vs =
     filter (\<lambda>v. \<not> StoredVoucher.claimed v \<and> StoredVoucher.channelId v = cid) vs"

text \<open>
  The candidates of a claim run, submitted one after the other, and the candidates that
  \<open>claimExpiring\<close> does not skip.
\<close>

definition claim_all ::
  "DrainService \<Rightarrow> int \<Rightarrow> (Hash \<times> StoredVoucher) list \<Rightarrow> ClaimRun \<Rightarrow> ClaimRun" where
  "claim_all svc now es run = foldl (\<lambda>r (cid, v). try_claim svc now cid v r) run es"

definition expiring :: "StorageData \<Rightarrow> int \<Rightarrow> int \<Rightarrow> Hash \<times> StoredVoucher \<Rightarrow> bool" where
  "expiring d nowSeconds bufferSeconds e =
     (case getChannel d (fst e) of
        None \<Rightarrow> False
      | Some ch \<Rightarrow>
          ChannelState.expiry ch \<noteq> 0 \<and> ChannelState.expiry ch - nowSeconds \<le> bufferSeconds
          \<and> 0 < StoredVoucher.amount (snd e))"

text \<open>
  The hashes of the claims that succeed, and the channels all of whose vouchers are
  claimed.
\<close>

definition hashes_of :: "DrainService \<Rightarrow> (Hash \<times> StoredVoucher) list \<Rightarrow> Hash list" where
  "hashes_of svc es =
     concat (map (\<lambda>e. case submit_claim svc (snd e) of Inr h \<Rightarrow> [h] | Inl x \<Rightarrow> []) es)"

definition all_claimed :: "Hash \<Rightarrow> StorageData \<Rightarrow> bool" where
  "all_claimed c d =
     (\<forall>w \<in> set (vouchers d). StoredVoucher.channelId w = c \<longrightarrow> StoredVoucher.claimed w)"

text \<open>The same provider when the signature library throws on every call.\<close>

definition malformed_signature_service :: DrainService where
  "malformed_signature_service =
     demo_service\<lparr>verifyTypedData :=
       (\<lambda>signer chain contract cid amt non sig. Inl (Error ''invalid signature length''))\<rparr>"

text \<open>The same provider when the contract read fails with a time-out.\<close>

definition timeout_service :: DrainService where
  "timeout_service =
     demo_service\<lparr>readContract_getChannel := (\<lambda>cid. Inl (Error ''request timed out''))\<rparr>"

text \<open>A header whose \<open>amount\<close> is the number \<open>0\<close>.\<close>

definition header_with_zero_amount :: json where
  "header_with_zero_amount =
     JObject [(''channelId'', JString ''0xa1''), (''amount'', JNumber 0),
              (''nonce'', JString ''1''), (''signature'', JString ''0xgood'')]"

text \<open>What a channel has been charged so far; \<open>0\<close> for a channel without a record.\<close>

definition charged :: "StorageData \<Rightarrow> Hash \<Rightarrow> int" where
  "charged d c = (case getChannel d c of None \<Rightarrow> 0 | Some cs \<Rightarrow> totalCharged cs)"

text \<open>
  The stored deposits are the contract's: every stored channel carries the deposit that
  the contract reports for it. \<open>validateVoucher\<close> creates channel records so, and no
  operation writes the field afterwards.
\<close>

definition deposits_mirror :: "DrainService \<Rightarrow> StorageData \<Rightarrow> bool" where
  "deposits_mirror svc d =
     (\<forall>c cs cd. getChannel d c = Some cs \<longrightarrow> readContract_getChannel svc c = Inr cd \<longrightarrow>
        ChannelState.deposit cs = ChannelData.deposit cd)"

text \<open>Two committed charges on channel \<open>0xa1\<close>, the second for a lower amount.\<close>

definition demo_steps :: "(int \<times> string VoucherHeader \<times> int) list" where
  "demo_steps =
     [(5, demo_voucher ''100000'' ''1'', 50000), (6, demo_voucher ''80000'' ''2'', 10000)]"

definition demo_after :: StorageData where
  "demo_after =
     (case run_charges demo_service load_fresh demo_steps of None \<Rightarrow> load_fresh | Some d \<Rightarrow> d)"

text \<open>
  A committed charge and the voucher record it stores: same channel, and the nonce and the
  amount are the numbers that the header's strings denote.
\<close>

definition stored_for :: "int \<times> string VoucherHeader \<times> int \<Rightarrow> StoredVoucher \<Rightarrow> bool" where
  "stored_for step w =
     (case step of (now, v, cost) \<Rightarrow>
        StoredVoucher.channelId w = VoucherHeader.channelId v
        \<and> BigInt (VoucherHeader.nonce v) = Inr (StoredVoucher.nonce w)
        \<and> BigInt (VoucherHeader.amount v) = Inr (StoredVoucher.amount w))"

definition of_channel :: "Hash \<Rightarrow> StoredVoucher list \<Rightarrow> StoredVoucher list" where
  "of_channel c ws = filter (\<lambda>w. StoredVoucher.channelId w = c) ws"

text \<open>
  \<open>storeVoucher\<close> called with the channel snapshot of a validation made earlier, not
  necessarily the last one; \<open>None\<close> when that validation was not successful or the call
  throws.
\<close>

definition commit_validated ::
  "int \<Rightarrow> StorageData \<Rightarrow> string VoucherHeader \<Rightarrow> ValidationResult \<Rightarrow> int \<Rightarrow> StorageData option" where
  "commit_validated now d voucher r cost =
     (if valid r then
        (case channel r of
           None \<Rightarrow> None
         | Some channelState \<Rightarrow>
             (case storeVoucher now d voucher channelState cost of
                Inl e \<Rightarrow> None
              | Inr d' \<Rightarrow> Some d'))
      else None)"

text \<open>
  Two requests on the new channel \<open>0xa1\<close> whose validations both come before the first
  commit: validation of the first (nonce \<open>2\<close>, cost \<open>50000\<close>), validation of the second
  (nonce \<open>1\<close>, cost \<open>10000\<close>), commit of the first, commit of the second. Each validation
  builds its own channel object, so both snapshots have \<open>totalCharged = 0\<close>.
\<close>

definition first_request :: "string VoucherHeader" where
  "first_request = demo_voucher ''100000'' ''2''"

definition second_request :: "string VoucherHeader" where
  "second_request = demo_voucher ''100000'' ''1''"

definition first_validation :: ValidationResult where
  "first_validation = fst (validateVoucher demo_service 5 load_fresh first_request 50000)"

definition second_validation :: ValidationResult where
  "second_validation = fst (validateVoucher demo_service 6 load_fresh second_request 10000)"

definition after_first_commit :: StorageData where
  "after_first_commit =
     (case commit_validated 7 load_fresh first_request first_validation 50000 of
        None \<Rightarrow> load_fresh | Some d \<Rightarrow> d)"

definition after_second_commit :: StorageData where
  "after_second_commit =
     (case commit_validated 8 after_first_commit second_request second_validation 10000 of
        None \<Rightarrow> after_first_commit | Some d \<Rightarrow> d)"

text \<open>
  A storage whose record of channel \<open>0xa1\<close> has deposit \<open>10\<close> while the contract reports
  \<open>1000000\<close>, and the storages after one committed charge on it and after one committed
  charge of cost \<open>-1\<close> on \<open>demo_after\<close>.
\<close>

definition stale_deposit_store :: StorageData where
  "stale_deposit_store =
     \<lparr>vouchers = [],
      channels = [(''0xa1'', (mk_channel ''0xa1'' 1700001800)\<lparr>deposit := 10\<rparr>)],
      totalEarned = ''0'', totalClaimed = ''0''\<rparr>"

definition after_stale_charge :: StorageData where
  "after_stale_charge =
     (case validate_then_store demo_service 9 stale_deposit_store (demo_voucher ''100'' ''1'') 50 of
        None \<Rightarrow> stale_deposit_store | Some d \<Rightarrow> d)"

definition after_negative_charge :: StorageData where
  "after_negative_charge =
     (case validate_then_store demo_service 9 demo_after (demo_voucher ''100000'' ''3'') (- 1) of
        None \<Rightarrow> demo_after | Some d \<Rightarrow> d)"

section \<open>Properties\<close>

subsection \<open>Storage\<close>

lemma apply_storage_op_totalEarned:
  "StorageData.totalEarned (apply_storage_op d op) = StorageData.totalEarned d"
  by (cases op) (simp_all add: storage_storeVoucher_def updateChannel_def markClaimed_def)

lemma foldl_storage_ops_totalEarned:
  "StorageData.totalEarned (foldl apply_storage_op d ops) = StorageData.totalEarned d"
  by (induction ops arbitrary: d) (simp_all add: apply_storage_op_totalEarned)

lemma BigInt_zero: "BigInt ''0'' = Inr 0"
  by code_simp

text \<open>
  C10. No operation of the storage writes \<open>totalEarned\<close>: from the empty store, after any
  sequence of \<open>storeVoucher\<close>, \<open>updateChannel\<close> and \<open>markClaimed\<close>, \<open>getStats\<close> returns and
  reports \<open>totalEarned = 0\<close>, whatever was stored or claimed.
\<close>

theorem getStats_totalEarned_always_zero:
  "\<exists>s. getStats (foldl apply_storage_op load_fresh ops) = Inr s \<and> Stats.totalEarned s = 0"
  by (simp add: getStats_def foldl_storage_ops_totalEarned load_fresh_def BigInt_zero)

lemma markClaimed_loop_length: "length (markClaimed_loop now cid tx vs) = length vs"
  by (induction vs) simp_all

lemma markClaimed_loop_nth:
  "i < length vs \<Longrightarrow>
   markClaimed_loop now cid tx vs ! i =
     (if StoredVoucher.channelId (vs ! i) = cid \<and> \<not> StoredVoucher.claimed (vs ! i)
      then (vs ! i)\<lparr>claimed := True, claimedAt := Some now, claimTxHash := Some tx\<rparr>
      else vs ! i)"
proof (induction vs arbitrary: i)
  case Nil
  then show ?case by simp
next
  case (Cons v vs)
  then show ?case by (cases i) simp_all
qed

lemma markClaimed_loop_idem:
  "markClaimed_loop now' cid tx' (markClaimed_loop now cid tx vs) = markClaimed_loop now cid tx vs"
  by (induction vs) simp_all

text \<open>
  C5. \<open>markClaimed(channelId, txHash)\<close> keeps the number and order of the vouchers; a
  voucher of that channel that was unclaimed becomes claimed and is stamped with the
  time of the call and the transaction hash; every other voucher (of another channel, or
  already claimed) is left as it was; the channels are not touched. A second call for the
  same channel, at any time and with any hash, changes nothing.
\<close>

theorem markClaimed_stamps_and_idempotent:
  "length (vouchers (markClaimed now d cid tx)) = length (vouchers d)
   \<and> (\<forall>i < length (vouchers d).
        let v = vouchers d ! i; v' = vouchers (markClaimed now d cid tx) ! i in
          (StoredVoucher.channelId v = cid \<and> \<not> StoredVoucher.claimed v \<longrightarrow>
             v' = v\<lparr>claimed := True, claimedAt := Some now, claimTxHash := Some tx\<rparr>)
          \<and> (StoredVoucher.channelId v \<noteq> cid \<or> StoredVoucher.claimed v \<longrightarrow> v' = v))
   \<and> channels (markClaimed now d cid tx) = channels d
   \<and> markClaimed now' (markClaimed now d cid tx) cid tx' = markClaimed now d cid tx"
  by (simp add: markClaimed_def markClaimed_loop_length markClaimed_loop_nth
      markClaimed_loop_idem Let_def)

theorem markClaimed_demo_store:
  "vouchers (markClaimed 9 demo_store ''0xa1'' ''0xt1'') ! 1 =
     (mk_voucher ''0xa1'' 100 2)\<lparr>claimed := True, claimedAt := Some 9, claimTxHash := Some ''0xt1''\<rparr>
   \<and> vouchers (markClaimed 9 demo_store ''0xa1'' ''0xt1'') ! 2 = mk_voucher ''0xb2'' 50 1
   \<and> markClaimed 10 (markClaimed 9 demo_store ''0xa1'' ''0xt1'') ''0xa1'' ''0xt2'' =
       markClaimed 9 demo_store ''0xa1'' ''0xt1''"
proof -
  note inst = markClaimed_stamps_and_idempotent [of 9 demo_store "''0xa1''" "''0xt1''" 10 "''0xt2''"]
  have v1: "vouchers demo_store ! 1 = mk_voucher ''0xa1'' 100 2"
    and v2: "vouchers demo_store ! 2 = mk_voucher ''0xb2'' 50 1"
    by (simp_all add: demo_store_def)
  have one: "(1::nat) < length (vouchers demo_store)" and two: "(2::nat) < length (vouchers demo_store)"
    by (simp_all add: demo_store_def)
  from inst have each: "\<forall>i < length (vouchers demo_store).
        let v = vouchers demo_store ! i; v' = vouchers (markClaimed 9 demo_store ''0xa1'' ''0xt1'') ! i in
          (StoredVoucher.channelId v = ''0xa1'' \<and> \<not> StoredVoucher.claimed v \<longrightarrow>
             v' = v\<lparr>claimed := True, claimedAt := Some 9, claimTxHash := Some ''0xt1''\<rparr>)
          \<and> (StoredVoucher.channelId v \<noteq> ''0xa1'' \<or> StoredVoucher.claimed v \<longrightarrow> v' = v)"
    by blast
  from each one have
    "vouchers (markClaimed 9 demo_store ''0xa1'' ''0xt1'') ! 1 =
       (mk_voucher ''0xa1'' 100 2)\<lparr>claimed := True, claimedAt := Some 9, claimTxHash := Some ''0xt1''\<rparr>"
    unfolding Let_def v1 [symmetric]
    by (auto simp: demo_store_def mk_voucher_def)
  moreover from each two have
    "vouchers (markClaimed 9 demo_store ''0xa1'' ''0xt1'') ! 2 = mk_voucher ''0xb2'' 50 1"
    unfolding Let_def v2 [symmetric]
    by (auto simp: demo_store_def mk_voucher_def)
  moreover from inst have
    "markClaimed 10 (markClaimed 9 demo_store ''0xa1'' ''0xt1'') ''0xa1'' ''0xt2'' =
       markClaimed 9 demo_store ''0xa1'' ''0xt1''"
    by blast
  ultimately show ?thesis by blast
qed

subsection \<open>Validation\<close>

lemma localChannelState_new:
  "getChannel d cid = None \<Longrightarrow>
   totalCharged (fst (localChannelState now d cid cd)) = 0
   \<and> lastVoucher (fst (localChannelState now d cid cd)) = None
   \<and> ChannelState.deposit (fst (localChannelState now d cid cd)) = ChannelData.deposit cd"
  by (simp add: localChannelState_def)

lemma localChannelState_old:
  "getChannel d cid = Some c \<Longrightarrow>
   totalCharged (fst (localChannelState now d cid cd)) = totalCharged c
   \<and> lastVoucher (fst (localChannelState now d cid cd)) = lastVoucher c
   \<and> ChannelState.deposit (fst (localChannelState now d cid cd)) = ChannelState.deposit c"
  by (simp add: localChannelState_def)

lemma validateVoucher_unfold:
  assumes amt: "BigInt (VoucherHeader.amount voucher) = Inr a"
    and non: "BigInt (VoucherHeader.nonce voucher) = Inr n"
    and rd: "readContract_getChannel svc (VoucherHeader.channelId voucher) = Inr cd"
  shows "validateVoucher svc now d voucher req =
     (if ChannelData.consumer cd = zeroAddress then (reject ''channel_not_found'' None, d)
      else if toLowerCase (provider cd) \<noteq> toLowerCase (account_address svc)
      then (reject ''wrong_provider'' None, d)
      else
        let cs = fst (localChannelState now d (VoucherHeader.channelId voucher) cd);
            d' = snd (localChannelState now d (VoucherHeader.channelId voucher) cd) in
        if a < totalCharged cs + req then (reject ''insufficient_funds'' (Some cs), d')
        else if a > ChannelData.deposit cd then (reject ''exceeds_deposit'' (Some cs), d')
        else if (case lastVoucher cs of None \<Rightarrow> False | Some lv \<Rightarrow> n \<le> StoredVoucher.nonce lv)
        then (reject ''invalid_nonce'' (Some cs), d')
        else
          (case verifyTypedData svc (ChannelData.consumer cd) (chainId svc) (contractAddress svc)
                  (VoucherHeader.channelId voucher) a n (VoucherHeader.signature voucher) of
             Inl e \<Rightarrow> (caught e, d')
           | Inr isValid \<Rightarrow>
               if \<not> isValid then (reject ''invalid_signature'' None, d')
               else (\<lparr>valid = True, error = None, channel = Some cs, newTotal = Some a\<rparr>, d')))"
  unfolding validateVoucher_def amt non rd
  by (simp add: case_prod_beta Let_def)

text \<open>
  C1. When the conversions of the voucher's amount and nonce and the contract read
  return, and the signature check returns in case the five checks before it pass (it is
  not called otherwise, and nothing is assumed of it then), the result of
  \<open>validateVoucher\<close> is the verdict of the checks of the specification taken in order:
  the error is the reason of the first failing check among \<open>channel_not_found\<close>,
  \<open>wrong_provider\<close>, \<open>insufficient_funds\<close>, \<open>exceeds_deposit\<close>, \<open>invalid_nonce\<close>,
  \<open>invalid_signature\<close>, where \<open>insufficient_funds\<close> fails exactly when the voucher's amount
  is below the channel's \<open>totalCharged\<close> plus the required amount (\<open>totalCharged\<close> is \<open>0\<close>
  for a channel seen for the first time, the stored value otherwise) and the deposit is
  the one the contract reports, which is the channel's own deposit when the stored
  records carry the contract's deposits; \<open>insufficient_funds\<close> comes with the channel
  snapshot; the result is valid exactly when no check fails, and then \<open>newTotal\<close> is the
  voucher's amount and the channel snapshot is returned.
\<close>

theorem validateVoucher_first_failing_check:
  assumes amt: "BigInt (VoucherHeader.amount voucher) = Inr a"
    and non: "BigInt (VoucherHeader.nonce voucher) = Inr n"
    and rd: "readContract_getChannel svc (VoucherHeader.channelId voucher) = Inr cd"
    and cs: "cs = fst (localChannelState now d (VoucherHeader.channelId voucher) cd)"
    and sg: "first_failing
        [(''channel_not_found'', ChannelData.consumer cd = zeroAddress),
         (''wrong_provider'', toLowerCase (provider cd) \<noteq> toLowerCase (account_address svc)),
         (''insufficient_funds'', a < totalCharged cs + requiredAmount),
         (''exceeds_deposit'', a > ChannelData.deposit cd),
         (''invalid_nonce'', \<exists>lv. lastVoucher cs = Some lv \<and> n \<le> StoredVoucher.nonce lv)]
          = None \<longrightarrow>
        verifyTypedData svc (ChannelData.consumer cd) (chainId svc) (contractAddress svc)
          (VoucherHeader.channelId voucher) a n (VoucherHeader.signature voucher) = Inr ok"
    and r: "r = fst (validateVoucher svc now d voucher requiredAmount)"
    and verdict: "verdict = first_failing
        [(''channel_not_found'', ChannelData.consumer cd = zeroAddress),
         (''wrong_provider'', toLowerCase (provider cd) \<noteq> toLowerCase (account_address svc)),
         (''insufficient_funds'', a < totalCharged cs + requiredAmount),
         (''exceeds_deposit'', a > ChannelData.deposit cd),
         (''invalid_nonce'', \<exists>lv. lastVoucher cs = Some lv \<and> n \<le> StoredVoucher.nonce lv),
         (''invalid_signature'', \<not> ok)]"
  shows "error r = verdict
       \<and> valid r = (verdict = None)
       \<and> (valid r \<longrightarrow> newTotal r = Some a \<and> channel r = Some cs)
       \<and> (verdict = Some ''insufficient_funds'' \<longrightarrow> channel r = Some cs)
       \<and> (getChannel d (VoucherHeader.channelId voucher) = None \<longrightarrow> totalCharged cs = 0)
       \<and> (\<forall>c. getChannel d (VoucherHeader.channelId voucher) = Some c \<longrightarrow>
              totalCharged cs = totalCharged c \<and> lastVoucher cs = lastVoucher c)
       \<and> (deposits_mirror svc d \<longrightarrow> ChannelState.deposit cs = ChannelData.deposit cd)"
proof -
  let ?sig = "verifyTypedData svc (ChannelData.consumer cd) (chainId svc) (contractAddress svc)
          (VoucherHeader.channelId voucher) a n (VoucherHeader.signature voucher)"
  let ?pass = "ChannelData.consumer cd \<noteq> zeroAddress
      \<and> toLowerCase (provider cd) = toLowerCase (account_address svc)
      \<and> \<not> a < totalCharged cs + requiredAmount
      \<and> \<not> a > ChannelData.deposit cd
      \<and> \<not> (\<exists>lv. lastVoucher cs = Some lv \<and> n \<le> StoredVoucher.nonce lv)"
  have nonce_check:
    "(case lastVoucher cs of None \<Rightarrow> False | Some lv \<Rightarrow> n \<le> StoredVoucher.nonce lv)
       = (\<exists>lv. lastVoucher cs = Some lv \<and> n \<le> StoredVoucher.nonce lv)"
    by (cases "lastVoucher cs") simp_all
  have main: "error r = verdict \<and> valid r = (verdict = None)
       \<and> (valid r \<longrightarrow> newTotal r = Some a \<and> channel r = Some cs)
       \<and> (verdict = Some ''insufficient_funds'' \<longrightarrow> channel r = Some cs)"
  proof (cases ?pass)
    case True
    then have "first_failing
        [(''channel_not_found'', ChannelData.consumer cd = zeroAddress),
         (''wrong_provider'', toLowerCase (provider cd) \<noteq> toLowerCase (account_address svc)),
         (''insufficient_funds'', a < totalCharged cs + requiredAmount),
         (''exceeds_deposit'', a > ChannelData.deposit cd),
         (''invalid_nonce'', \<exists>lv. lastVoucher cs = Some lv \<and> n \<le> StoredVoucher.nonce lv)]
          = None"
      by (simp add: first_failing_def)
    with sg have reached: "?sig = Inr ok" by blast
    from True show ?thesis
      unfolding r verdict validateVoucher_unfold [OF amt non rd] reached
      using nonce_check
      by (auto simp add: first_failing_def reject_def Let_def cs [symmetric])
  next
    case False
    then show ?thesis
      unfolding r verdict validateVoucher_unfold [OF amt non rd]
      using nonce_check
      by (auto simp add: first_failing_def reject_def Let_def cs [symmetric])
  qed
  have new: "getChannel d (VoucherHeader.channelId voucher) = None \<longrightarrow> totalCharged cs = 0"
    unfolding cs by (simp add: localChannelState_new)
  have old: "\<forall>c. getChannel d (VoucherHeader.channelId voucher) = Some c \<longrightarrow>
              totalCharged cs = totalCharged c \<and> lastVoucher cs = lastVoucher c"
    unfolding cs by (simp add: localChannelState_old)
  have mir: "deposits_mirror svc d \<longrightarrow> ChannelState.deposit cs = ChannelData.deposit cd"
  proof
    assume m: "deposits_mirror svc d"
    show "ChannelState.deposit cs = ChannelData.deposit cd"
    proof (cases "getChannel d (VoucherHeader.channelId voucher)")
      case None
      then show ?thesis unfolding cs by (simp add: localChannelState_new)
    next
      case (Some c)
      with m rd have "ChannelState.deposit c = ChannelData.deposit cd"
        by (simp add: deposits_mirror_def)
      with Some show ?thesis unfolding cs by (simp add: localChannelState_old)
    qed
  qed
  from main new old mir show ?thesis by blast
qed

lemma demo_amount: "BigInt (VoucherHeader.amount (demo_voucher ''100000'' ''1'')) = Inr 100000"
  by code_simp
lemma demo_nonce: "BigInt (VoucherHeader.nonce (demo_voucher ''100000'' ''1'')) = Inr 1"
  by code_simp

lemma demo_small_amount: "BigInt (VoucherHeader.amount (demo_voucher ''10'' ''1'')) = Inr 10"
  by code_simp

lemma demo_small_nonce: "BigInt (VoucherHeader.nonce (demo_voucher ''10'' ''1'')) = Inr 1"
  by code_simp

text \<open>
  Scenario A of the specification: deposit \<open>1000000\<close>, no earlier voucher, a validly
  signed voucher of amount \<open>100000\<close> and nonce \<open>1\<close>, required amount \<open>50000\<close>. And a
  voucher of amount \<open>10\<close> for the same required amount, sent to a provider whose signature
  library throws on every call: the verdict is \<open>insufficient_funds\<close>, the library is not
  called.
\<close>

theorem validateVoucher_scenario_A:
  "valid (fst (validateVoucher demo_service 5 load_fresh (demo_voucher ''100000'' ''1'') 50000))
   \<and> newTotal (fst (validateVoucher demo_service 5 load_fresh (demo_voucher ''100000'' ''1'') 50000))
       = Some 100000
   \<and> error (fst (validateVoucher malformed_signature_service 5 load_fresh
                   (demo_voucher ''10'' ''1'') 50000))
       = Some ''insufficient_funds''"
proof -
  have rd: "readContract_getChannel demo_service
              (VoucherHeader.channelId (demo_voucher ''100000'' ''1'')) = Inr demo_channelData"
    by (simp add: demo_service_def)
  have sg: "first_failing
        [(''channel_not_found'', ChannelData.consumer demo_channelData = zeroAddress),
         (''wrong_provider'',
            toLowerCase (provider demo_channelData) \<noteq> toLowerCase (account_address demo_service)),
         (''insufficient_funds'',
            100000 < totalCharged (fst (localChannelState 5 load_fresh
                        (VoucherHeader.channelId (demo_voucher ''100000'' ''1'')) demo_channelData))
                      + 50000),
         (''exceeds_deposit'', 100000 > ChannelData.deposit demo_channelData),
         (''invalid_nonce'',
            \<exists>lv. lastVoucher (fst (localChannelState 5 load_fresh
                        (VoucherHeader.channelId (demo_voucher ''100000'' ''1'')) demo_channelData))
                    = Some lv \<and> 1 \<le> StoredVoucher.nonce lv)]
          = None \<longrightarrow>
        verifyTypedData demo_service (ChannelData.consumer demo_channelData)
              (chainId demo_service) (contractAddress demo_service)
              (VoucherHeader.channelId (demo_voucher ''100000'' ''1'')) 100000 1
              (VoucherHeader.signature (demo_voucher ''100000'' ''1'')) = Inr True"
    by (simp add: demo_service_def demo_voucher_def)
  have nochan: "getChannel load_fresh (VoucherHeader.channelId (demo_voucher a b)) = None" for a b
    by (simp add: getChannel_def load_fresh_def)
  have lower: "toLowerCase (provider demo_channelData) = toLowerCase (account_address demo_service)"
    by code_simp
  have nz: "ChannelData.consumer demo_channelData \<noteq> zeroAddress"
    by (simp add: demo_channelData_def zeroAddress_def)
  have dep: "ChannelData.deposit demo_channelData = 1000000"
    by (simp add: demo_channelData_def)
  from validateVoucher_first_failing_check [OF demo_amount demo_nonce rd refl sg refl refl]
  have accepted:
    "valid (fst (validateVoucher demo_service 5 load_fresh (demo_voucher ''100000'' ''1'') 50000))
     \<and> newTotal (fst (validateVoucher demo_service 5 load_fresh (demo_voucher ''100000'' ''1'') 50000))
       = Some 100000"
    using nochan lower nz dep
    by (simp add: first_failing_def localChannelState_new)
  have rd': "readContract_getChannel malformed_signature_service
              (VoucherHeader.channelId (demo_voucher ''10'' ''1'')) = Inr demo_channelData"
    by (simp add: malformed_signature_service_def demo_service_def)
  have acct: "account_address malformed_signature_service = account_address demo_service"
    by (simp add: malformed_signature_service_def)
  have short: "first_failing
        [(''channel_not_found'', ChannelData.consumer demo_channelData = zeroAddress),
         (''wrong_provider'',
            toLowerCase (provider demo_channelData)
              \<noteq> toLowerCase (account_address malformed_signature_service)),
         (''insufficient_funds'',
            10 < totalCharged (fst (localChannelState 5 load_fresh
                        (VoucherHeader.channelId (demo_voucher ''10'' ''1'')) demo_channelData))
                      + 50000),
         (''exceeds_deposit'', 10 > ChannelData.deposit demo_channelData),
         (''invalid_nonce'',
            \<exists>lv. lastVoucher (fst (localChannelState 5 load_fresh
                        (VoucherHeader.channelId (demo_voucher ''10'' ''1'')) demo_channelData))
                    = Some lv \<and> 1 \<le> StoredVoucher.nonce lv)]
          = None \<longrightarrow>
        verifyTypedData malformed_signature_service (ChannelData.consumer demo_channelData)
              (chainId malformed_signature_service) (contractAddress malformed_signature_service)
              (VoucherHeader.channelId (demo_voucher ''10'' ''1'')) 10 1
              (VoucherHeader.signature (demo_voucher ''10'' ''1'')) = Inr True"
    using nochan lower nz acct
    by (simp add: first_failing_def localChannelState_new)
  from validateVoucher_first_failing_check [OF demo_small_amount demo_small_nonce rd' refl short
      refl refl]
  have rejected:
    "error (fst (validateVoucher malformed_signature_service 5 load_fresh
                   (demo_voucher ''10'' ''1'') 50000))
       = Some ''insufficient_funds''"
    using nochan lower nz dep acct
    by (simp add: first_failing_def localChannelState_new)
  from accepted rejected show ?thesis by blast
qed

subsection \<open>The highest voucher of each channel\<close>

lemma highest_loop_lookup:
  "map_of (highest_loop vs acc) cid = pick (map_of acc cid) (unclaimed_of cid vs)"
proof (induction vs arbitrary: acc)
  case Nil
  then show ?case by (simp add: unclaimed_of_def)
next
  case (Cons v vs)
  show ?case
  proof (cases "StoredVoucher.claimed v")
    case True
    then show ?thesis using Cons.IH [of acc] by (simp add: unclaimed_of_def)
  next
    case False
    show ?thesis
    proof (cases "StoredVoucher.channelId v = cid")
      case True
      with False show ?thesis
        using Cons.IH [of acc] Cons.IH [of "AList.update cid v acc"]
        by (simp add: unclaimed_of_def update_conv' split: option.splits)
    next
      case other: False
      with False show ?thesis
        using Cons.IH [of acc] Cons.IH [of "AList.update (StoredVoucher.channelId v) v acc"]
        by (simp add: unclaimed_of_def update_conv' split: option.splits)
    qed
  qed
qed

lemma highest_loop_distinct:
  "distinct (map fst acc) \<Longrightarrow> distinct (map fst (highest_loop vs acc))"
  by (induction vs arbitrary: acc) (simp_all add: distinct_update split: option.splits)

lemma pick_Some_cur:
  "pick (Some e) xs = Some r \<Longrightarrow>
     (r = e \<and> (\<forall>x \<in> set xs. StoredVoucher.amount x \<le> StoredVoucher.amount e))
     \<or> (StoredVoucher.amount e < StoredVoucher.amount r
         \<and> find (\<lambda>w. StoredVoucher.amount w = StoredVoucher.amount r) xs = Some r
         \<and> (\<forall>x \<in> set xs. StoredVoucher.amount x \<le> StoredVoucher.amount r))"
proof (induction xs arbitrary: e)
  case Nil
  then show ?case by simp
next
  case (Cons v vs)
  show ?case
  proof (cases "StoredVoucher.amount v > StoredVoucher.amount e")
    case True
    with Cons.prems have "pick (Some v) vs = Some r" by simp
    from Cons.IH [OF this] True show ?thesis by auto
  next
    case False
    with Cons.prems have "pick (Some e) vs = Some r" by simp
    from Cons.IH [OF this] False show ?thesis by auto
  qed
qed

lemma pick_Some_never_None: "pick (Some e) xs \<noteq> None"
  by (induction xs arbitrary: e) simp_all

lemma pick_None_iff: "pick None xs = None \<longleftrightarrow> xs = []"
  by (cases xs) (simp_all add: pick_Some_never_None)

lemma pick_None_first_max:
  assumes "pick None xs = Some r"
  shows "find (\<lambda>w. StoredVoucher.amount w = StoredVoucher.amount r) xs = Some r
         \<and> (\<forall>x \<in> set xs. StoredVoucher.amount x \<le> StoredVoucher.amount r)"
proof (cases xs)
  case Nil
  with assms show ?thesis by simp
next
  case (Cons v vs)
  with assms have "pick (Some v) vs = Some r" by simp
  from pick_Some_cur [OF this] Cons show ?thesis by auto
qed

lemma find_filter_conv:
  "find P (filter Q xs) = find (\<lambda>x. Q x \<and> P x) xs"
  by (induction xs) simp_all

text \<open>
  C4, amended. \<open>getHighestVoucherPerChannel\<close> returns one entry per channel, and its keys
  are exactly the channels that have an unclaimed voucher. The entry of a channel is one
  of its unclaimed vouchers, no unclaimed voucher of the channel has a larger amount, and
  among the unclaimed vouchers of the channel with that amount it is the one stored
  first: the loop replaces an entry only for a strictly larger amount and never looks at
  the nonce.
\<close>

theorem getHighestVoucherPerChannel_first_maximum:
  "distinct (map fst (getHighestVoucherPerChannel d))
   \<and> fst ` set (getHighestVoucherPerChannel d) =
       {StoredVoucher.channelId v | v. v \<in> set (vouchers d) \<and> \<not> StoredVoucher.claimed v}
   \<and> (\<forall>(cid, r) \<in> set (getHighestVoucherPerChannel d).
         r \<in> set (vouchers d) \<and> \<not> StoredVoucher.claimed r \<and> StoredVoucher.channelId r = cid
         \<and> (\<forall>v \<in> set (vouchers d). \<not> StoredVoucher.claimed v \<and> StoredVoucher.channelId v = cid
               \<longrightarrow> StoredVoucher.amount v \<le> StoredVoucher.amount r)
         \<and> find (\<lambda>v. \<not> StoredVoucher.claimed v \<and> StoredVoucher.channelId v = cid
                       \<and> StoredVoucher.amount v = StoredVoucher.amount r) (vouchers d) = Some r)"
proof -
  let ?H = "getHighestVoucherPerChannel d"
  have dist: "distinct (map fst ?H)"
    unfolding getHighestVoucherPerChannel_def by (rule highest_loop_distinct) simp
  have look: "map_of ?H cid = pick None (unclaimed_of cid (vouchers d))" for cid
    unfolding getHighestVoucherPerChannel_def by (simp add: highest_loop_lookup)
  have keys: "fst ` set ?H =
       {StoredVoucher.channelId v | v. v \<in> set (vouchers d) \<and> \<not> StoredVoucher.claimed v}"
  proof (rule set_eqI)
    fix cid
    have "cid \<in> fst ` set ?H \<longleftrightarrow> map_of ?H cid \<noteq> None"
      by (simp add: map_of_eq_None_iff)
    also have "\<dots> \<longleftrightarrow> unclaimed_of cid (vouchers d) \<noteq> []"
      by (simp add: look pick_None_iff)
    also have "\<dots> \<longleftrightarrow> cid \<in> {StoredVoucher.channelId v | v.
                  v \<in> set (vouchers d) \<and> \<not> StoredVoucher.claimed v}"
      by (auto simp: unclaimed_of_def filter_empty_conv)
    finally show "cid \<in> fst ` set ?H \<longleftrightarrow> cid \<in> {StoredVoucher.channelId v | v.
                  v \<in> set (vouchers d) \<and> \<not> StoredVoucher.claimed v}" .
  qed
  have entries: "r \<in> set (vouchers d) \<and> \<not> StoredVoucher.claimed r \<and> StoredVoucher.channelId r = cid
         \<and> (\<forall>v \<in> set (vouchers d). \<not> StoredVoucher.claimed v \<and> StoredVoucher.channelId v = cid
               \<longrightarrow> StoredVoucher.amount v \<le> StoredVoucher.amount r)
         \<and> find (\<lambda>v. \<not> StoredVoucher.claimed v \<and> StoredVoucher.channelId v = cid
                       \<and> StoredVoucher.amount v = StoredVoucher.amount r) (vouchers d) = Some r"
    if "(cid, r) \<in> set ?H" for cid r
  proof -
    from that dist have "map_of ?H cid = Some r" by simp
    then have p: "pick None (unclaimed_of cid (vouchers d)) = Some r" by (simp add: look)
    from pick_None_first_max [OF p]
    have f: "find (\<lambda>w. StoredVoucher.amount w = StoredVoucher.amount r)
               (unclaimed_of cid (vouchers d)) = Some r"
      and m: "\<forall>x \<in> set (unclaimed_of cid (vouchers d)).
               StoredVoucher.amount x \<le> StoredVoucher.amount r"
      by simp_all
    from f have f': "find (\<lambda>v. (\<not> StoredVoucher.claimed v \<and> StoredVoucher.channelId v = cid)
                       \<and> StoredVoucher.amount v = StoredVoucher.amount r) (vouchers d) = Some r"
      by (simp add: unclaimed_of_def find_filter_conv)
    then have "r \<in> set (vouchers d) \<and> \<not> StoredVoucher.claimed r \<and> StoredVoucher.channelId r = cid"
      by (auto simp: find_Some_iff)
    with m f' show ?thesis by (auto simp: unclaimed_of_def)
  qed
  from dist keys entries show ?thesis by blast
qed

theorem getHighestVoucherPerChannel_demo_store:
  "distinct (map fst (getHighestVoucherPerChannel demo_store))
   \<and> StoredVoucher.amount (mk_voucher ''0xa1'' 100 2) \<le> StoredVoucher.amount (mk_voucher ''0xa1'' 100 1)
   \<and> \<not> StoredVoucher.claimed (mk_voucher ''0xa1'' 100 1)"
proof -
  have entry: "(''0xa1'', mk_voucher ''0xa1'' 100 1) \<in> set (getHighestVoucherPerChannel demo_store)"
    by code_simp
  have other: "mk_voucher ''0xa1'' 100 2 \<in> set (vouchers demo_store)"
    by (simp add: demo_store_def)
  have unclaimed: "\<not> StoredVoucher.claimed (mk_voucher ''0xa1'' 100 2)
      \<and> StoredVoucher.channelId (mk_voucher ''0xa1'' 100 2) = ''0xa1''"
    by (simp add: mk_voucher_def)
  from getHighestVoucherPerChannel_first_maximum [of demo_store] entry other unclaimed
  show ?thesis by blast
qed

text \<open>
  C4 with the tie-break by nonce does not hold: the two unclaimed vouchers of channel
  \<open>0xa1\<close> have the same amount, and the entry is the one with the lower nonce.
\<close>

theorem getHighestVoucherPerChannel_tie_keeps_lower_nonce:
  "map_of (getHighestVoucherPerChannel demo_store) ''0xa1'' = Some (mk_voucher ''0xa1'' 100 1)
   \<and> mk_voucher ''0xa1'' 100 2 \<in> set (vouchers demo_store)
   \<and> \<not> StoredVoucher.claimed (mk_voucher ''0xa1'' 100 2)
   \<and> StoredVoucher.channelId (mk_voucher ''0xa1'' 100 2) = ''0xa1''
   \<and> StoredVoucher.amount (mk_voucher ''0xa1'' 100 2) = StoredVoucher.amount (mk_voucher ''0xa1'' 100 1)
   \<and> StoredVoucher.nonce (mk_voucher ''0xa1'' 100 1) < StoredVoucher.nonce (mk_voucher ''0xa1'' 100 2)"
  by code_simp

subsection \<open>Claim runs\<close>

lemma try_claim_channels [simp]:
  "getChannel (storage (try_claim svc now cid v run)) c = getChannel (storage run) c"
  by (simp add: try_claim_def markClaimed_def getChannel_def split: sum.splits)

lemma claimPayments_loop_claim_all:
  "claimPayments_loop svc now forceAll es run =
     claim_all svc now
       (filter (\<lambda>e. forceAll \<or> claimThreshold svc \<le> StoredVoucher.amount (snd e)) es) run"
  by (induction es arbitrary: run) (auto simp: claim_all_def)

lemma expiring_try_claim [simp]:
  "expiring (storage (try_claim svc now cid v run)) ns b e = expiring (storage run) ns b e"
  by (simp add: expiring_def)

lemma claimExpiring_loop_claim_all:
  "claimExpiring_loop svc now ns b es run =
     claim_all svc now (filter (expiring (storage run) ns b) es) run"
proof (induction es arbitrary: run)
  case Nil
  then show ?case by (simp add: claim_all_def)
next
  case (Cons e es)
  obtain cid v where e: "e = (cid, v)" by (cases e)
  have pres: "filter (expiring (storage (try_claim svc now cid v run)) ns b) es
                = filter (expiring (storage run) ns b) es"
    by (rule filter_cong) simp_all
  show ?case
  proof (cases "expiring (storage run) ns b e")
    case True
    then show ?thesis
      using Cons.IH [of "try_claim svc now cid v run"] pres
      by (auto simp: e expiring_def claim_all_def split: option.splits)
  next
    case False
    then show ?thesis
      using Cons.IH [of run]
      by (auto simp: e expiring_def claim_all_def split: option.splits)
  qed
qed

lemma claim_all_Nil [simp]: "claim_all svc now [] run = run"
  by (simp add: claim_all_def)

lemma claim_all_Cons [simp]:
  "claim_all svc now ((cid, v) # es) run = claim_all svc now es (try_claim svc now cid v run)"
  by (simp add: claim_all_def)

lemma try_claim_attempts:
  "attempts (try_claim svc now cid v run) = attempts run @ [claim_args v]"
  by (simp add: try_claim_def split: sum.splits)

lemma claim_all_attempts:
  "attempts (claim_all svc now es run) = attempts run @ map (\<lambda>e. claim_args (snd e)) es"
  by (induction es arbitrary: run) (auto simp: try_claim_attempts)

lemma claim_all_txHashes:
  "txHashes (claim_all svc now es run) = txHashes run @ hashes_of svc es"
  by (induction es arbitrary: run) (auto simp: try_claim_def hashes_of_def split: sum.splits)

lemma markClaimed_loop_other:
  "cid \<noteq> c \<Longrightarrow>
   filter (\<lambda>w. StoredVoucher.channelId w = c) (markClaimed_loop now cid h vs)
     = filter (\<lambda>w. StoredVoucher.channelId w = c) vs"
  by (induction vs) auto

lemma try_claim_other_channel:
  "cid \<noteq> c \<or> (\<exists>x. submit_claim svc v = Inl x) \<Longrightarrow>
   filter (\<lambda>w. StoredVoucher.channelId w = c) (vouchers (storage (try_claim svc now cid v run)))
     = filter (\<lambda>w. StoredVoucher.channelId w = c) (vouchers (storage run))"
  by (auto simp: try_claim_def markClaimed_def markClaimed_loop_other split: sum.splits)

lemma claim_all_failed_channel:
  "\<forall>e \<in> set es. fst e = c \<longrightarrow> (\<exists>x. submit_claim svc (snd e) = Inl x) \<Longrightarrow>
   filter (\<lambda>w. StoredVoucher.channelId w = c) (vouchers (storage (claim_all svc now es run)))
     = filter (\<lambda>w. StoredVoucher.channelId w = c) (vouchers (storage run))"
proof (induction es arbitrary: run)
  case Nil
  then show ?case by simp
next
  case (Cons e es)
  obtain cid v where e: "e = (cid, v)" by (cases e)
  from Cons.prems e have "cid \<noteq> c \<or> (\<exists>x. submit_claim svc v = Inl x)" by auto
  from try_claim_other_channel [OF this] Cons.IH [of "try_claim svc now cid v run"] Cons.prems
  show ?case by (simp add: e)
qed

lemma markClaimed_loop_set:
  "w \<in> set (markClaimed_loop now cid h vs) \<Longrightarrow>
     \<exists>u \<in> set vs. StoredVoucher.channelId w = StoredVoucher.channelId u
        \<and> (StoredVoucher.claimed u \<or> StoredVoucher.channelId u = cid \<longrightarrow> StoredVoucher.claimed w)"
  by (induction vs) (auto split: if_splits)

lemma markClaimed_all_claimed: "all_claimed cid (markClaimed now d cid h)"
  unfolding all_claimed_def markClaimed_def
  by (auto dest!: markClaimed_loop_set)

lemma markClaimed_keeps_all_claimed:
  "all_claimed c d \<Longrightarrow> all_claimed c (markClaimed now d cid h)"
  unfolding all_claimed_def markClaimed_def
  by (auto dest!: markClaimed_loop_set)

lemma try_claim_keeps_all_claimed:
  "all_claimed c (storage run) \<Longrightarrow> all_claimed c (storage (try_claim svc now cid v run))"
  by (auto simp: try_claim_def markClaimed_keeps_all_claimed split: sum.splits)

lemma claim_all_keeps_all_claimed:
  "all_claimed c (storage run) \<Longrightarrow> all_claimed c (storage (claim_all svc now es run))"
  by (induction es arbitrary: run) (auto simp: try_claim_keeps_all_claimed)

lemma claim_all_succeeded_channel:
  "(c, v) \<in> set es \<Longrightarrow> submit_claim svc v = Inr h \<Longrightarrow>
   all_claimed c (storage (claim_all svc now es run))"
proof (induction es arbitrary: run)
  case Nil
  then show ?case by simp
next
  case (Cons e es)
  obtain cid u where e: "e = (cid, u)" by (cases e)
  show ?case
  proof (cases "e = (c, v)")
    case True
    with e Cons.prems have "all_claimed c (storage (try_claim svc now cid u run))"
      by (simp add: try_claim_def markClaimed_all_claimed)
    then show ?thesis by (simp add: e claim_all_keeps_all_claimed)
  next
    case False
    with Cons.prems have "(c, v) \<in> set es" by auto
    from Cons.IH [OF this Cons.prems(2)] show ?thesis by (simp add: e)
  qed
qed

lemma getHighest_distinct: "distinct (map fst (getHighestVoucherPerChannel d))"
  unfolding getHighestVoucherPerChannel_def by (rule highest_loop_distinct) simp

lemma getHighest_lookup:
  "map_of (getHighestVoucherPerChannel d) cid = pick None (unclaimed_of cid (vouchers d))"
  unfolding getHighestVoucherPerChannel_def by (simp add: highest_loop_lookup)

lemma getHighest_entry:
  assumes "(cid, r) \<in> set (getHighestVoucherPerChannel d)"
  shows "map_of (getHighestVoucherPerChannel d) cid = Some r"
    and "StoredVoucher.channelId r = cid"
    and "\<not> StoredVoucher.claimed r"
proof -
  from assms show look: "map_of (getHighestVoucherPerChannel d) cid = Some r"
    by (simp add: getHighest_distinct)
  then have "pick None (unclaimed_of cid (vouchers d)) = Some r"
    by (simp add: getHighest_lookup)
  from pick_None_first_max [OF this] have "r \<in> set (unclaimed_of cid (vouchers d))"
    by (auto simp: find_Some_iff)
  then show "StoredVoucher.channelId r = cid" and "\<not> StoredVoucher.claimed r"
    by (simp_all add: unclaimed_of_def)
qed

lemma unclaimed_of_filter:
  "unclaimed_of c vs =
     filter (\<lambda>w. \<not> StoredVoucher.claimed w) (filter (\<lambda>w. StoredVoucher.channelId w = c) vs)"
  by (auto simp: unclaimed_of_def intro: filter_cong)

text \<open>
  C7. \<open>claimPayments\<close> always returns. It submits a claim for every candidate (every
  channel's highest unclaimed voucher, unless the run is not forced and the amount is
  below the threshold), in order, whatever the outcome of the claims before it. The list
  it returns holds the hashes of the claims that succeeded, in order, and nothing else.
  For a candidate whose claim throws, the vouchers of its channel are as they were, and
  the same voucher is the channel's candidate in the storage the run leaves. For a
  candidate whose claim succeeds, the hash is in the list and every voucher of its
  channel is claimed.
\<close>

theorem claimPayments_failures_isolated:
  assumes run: "run = claimPayments svc now forceAll d"
    and cands: "cands =
      filter (\<lambda>e. forceAll \<or> claimThreshold svc \<le> StoredVoucher.amount (snd e))
        (getHighestVoucherPerChannel d)"
  shows "attempts run = map (\<lambda>e. claim_args (snd e)) cands
    \<and> txHashes run =
        concat (map (\<lambda>e. case submit_claim svc (snd e) of Inr h \<Rightarrow> [h] | Inl x \<Rightarrow> []) cands)
    \<and> (\<forall>(cid, v) \<in> set cands.
          (\<forall>x. submit_claim svc v = Inl x \<longrightarrow>
             filter (\<lambda>w. StoredVoucher.channelId w = cid) (vouchers (storage run))
               = filter (\<lambda>w. StoredVoucher.channelId w = cid) (vouchers d)
             \<and> map_of (getHighestVoucherPerChannel (storage run)) cid = Some v)
          \<and> (\<forall>h. submit_claim svc v = Inr h \<longrightarrow>
             h \<in> set (txHashes run)
             \<and> (\<forall>w \<in> set (vouchers (storage run)).
                   StoredVoucher.channelId w = cid \<longrightarrow> StoredVoucher.claimed w)))"
proof -
  let ?start = "\<lparr>txHashes = [], storage = d, attempts = []\<rparr>"
  have run': "run = claim_all svc now cands ?start"
    unfolding run cands claimPayments_def by (simp add: claimPayments_loop_claim_all)
  have att: "attempts run = map (\<lambda>e. claim_args (snd e)) cands"
    unfolding run' by (simp add: claim_all_attempts)
  have txs: "txHashes run = hashes_of svc cands"
    unfolding run' by (simp add: claim_all_txHashes)
  have dist: "distinct (map fst cands)"
    unfolding cands by (simp add: getHighest_distinct distinct_map_filter)
  have each: "(\<forall>x. submit_claim svc v = Inl x \<longrightarrow>
             filter (\<lambda>w. StoredVoucher.channelId w = cid) (vouchers (storage run))
               = filter (\<lambda>w. StoredVoucher.channelId w = cid) (vouchers d)
             \<and> map_of (getHighestVoucherPerChannel (storage run)) cid = Some v)
          \<and> (\<forall>h. submit_claim svc v = Inr h \<longrightarrow>
             h \<in> set (txHashes run)
             \<and> (\<forall>w \<in> set (vouchers (storage run)).
                   StoredVoucher.channelId w = cid \<longrightarrow> StoredVoucher.claimed w))"
    if mem: "(cid, v) \<in> set cands" for cid v
  proof (intro conjI allI impI)
    fix x assume fail: "submit_claim svc v = Inl x"
    have only: "\<forall>e \<in> set cands. fst e = cid \<longrightarrow> (\<exists>x. submit_claim svc (snd e) = Inl x)"
    proof (intro ballI impI)
      fix e assume "e \<in> set cands" and "fst e = cid"
      with mem dist have "e = (cid, v)"
        by (metis eq_key_imp_eq_value prod.collapse)
      with fail show "\<exists>x. submit_claim svc (snd e) = Inl x" by simp
    qed
    from claim_all_failed_channel [OF only, of now ?start]
    show same: "filter (\<lambda>w. StoredVoucher.channelId w = cid) (vouchers (storage run))
               = filter (\<lambda>w. StoredVoucher.channelId w = cid) (vouchers d)"
      unfolding run' by simp
    from mem have "(cid, v) \<in> set (getHighestVoucherPerChannel d)"
      unfolding cands by simp
    then have "map_of (getHighestVoucherPerChannel d) cid = Some v"
      by (rule getHighest_entry)
    then show "map_of (getHighestVoucherPerChannel (storage run)) cid = Some v"
      by (simp add: getHighest_lookup unclaimed_of_filter same)
  next
    fix h assume ok: "submit_claim svc v = Inr h"
    from mem ok show "h \<in> set (txHashes run)"
      unfolding txs hashes_of_def by force
    from claim_all_succeeded_channel [OF mem ok, of now ?start]
    show "\<forall>w \<in> set (vouchers (storage run)).
            StoredVoucher.channelId w = cid \<longrightarrow> StoredVoucher.claimed w"
      unfolding run' all_claimed_def .
  qed
  from att txs each show ?thesis
    unfolding hashes_of_def by blast
qed

theorem claimPayments_demo_store:
  "txHashes (claimPayments demo_service demo_now True demo_store)
     = [''0xtx0xa1'', ''0xtx0xc3'', ''0xtx0xd4'']
   \<and> map_of (getHighestVoucherPerChannel
               (storage (claimPayments demo_service demo_now True demo_store))) ''0xb2''
       = Some (mk_voucher ''0xb2'' 50 1)"
proof -
  have cands: "[(''0xa1'', mk_voucher ''0xa1'' 100 1), (''0xb2'', mk_voucher ''0xb2'' 50 1),
                (''0xc3'', mk_voucher ''0xc3'' 70 1), (''0xd4'', mk_voucher ''0xd4'' 5 1)]
      = filter (\<lambda>e. True \<or> claimThreshold demo_service \<le> StoredVoucher.amount (snd e))
          (getHighestVoucherPerChannel demo_store)"
    by code_simp
  have a: "submit_claim demo_service (mk_voucher ''0xa1'' 100 1) = Inr ''0xtx0xa1''"
    and b: "submit_claim demo_service (mk_voucher ''0xb2'' 50 1) = Inl (Error ''execution reverted'')"
    and c: "submit_claim demo_service (mk_voucher ''0xc3'' 70 1) = Inr ''0xtx0xc3''"
    and e: "submit_claim demo_service (mk_voucher ''0xd4'' 5 1) = Inr ''0xtx0xd4''"
    by (simp_all add: submit_claim_def demo_service_def mk_voucher_def)
  from claimPayments_failures_isolated [OF refl cands, of demo_now] a b c e
  show ?thesis by simp
qed

lemma try_claim_threshold:
  "try_claim (svc\<lparr>claimThreshold := t\<rparr>) now cid v run = try_claim svc now cid v run"
  by (simp add: try_claim_def submit_claim_def)

lemma claim_all_threshold:
  "claim_all (svc\<lparr>claimThreshold := t\<rparr>) now es run = claim_all svc now es run"
  by (simp add: claim_all_def try_claim_threshold)

text \<open>
  C6, amended. \<open>claimExpiring(bufferSeconds)\<close> submits a claim for exactly the channels
  that have a highest unclaimed voucher, have a channel record in the storage whose
  expiry is set (not \<open>0\<close>), expire within \<open>bufferSeconds\<close> of the current time in seconds,
  and whose highest voucher has a positive amount, in the order of the candidates and with
  that voucher's amount, nonce and signature. The claim threshold plays no part: the run
  is the same for every threshold.
\<close>

theorem claimExpiring_selection:
  "attempts (claimExpiring svc now bufferSeconds d) =
     map (\<lambda>e. claim_args (snd e))
       (filter (expiring d (now div 1000) bufferSeconds) (getHighestVoucherPerChannel d))
   \<and> fst ` set (attempts (claimExpiring svc now bufferSeconds d)) =
       {cid. \<exists>v ch. map_of (getHighestVoucherPerChannel d) cid = Some v
                \<and> getChannel d cid = Some ch
                \<and> ChannelState.expiry ch \<noteq> 0
                \<and> ChannelState.expiry ch - now div 1000 \<le> bufferSeconds
                \<and> 0 < StoredVoucher.amount v}
   \<and> claimExpiring (svc\<lparr>claimThreshold := t\<rparr>) now bufferSeconds d
       = claimExpiring svc now bufferSeconds d"
proof -
  let ?H = "getHighestVoucherPerChannel d"
  let ?E = "expiring d (now div 1000) bufferSeconds"
  have att: "attempts (claimExpiring svc now bufferSeconds d) =
     map (\<lambda>e. claim_args (snd e)) (filter ?E ?H)"
    by (simp add: claimExpiring_def claimExpiring_loop_claim_all claim_all_attempts)
  have "fst ` set (map (\<lambda>e. claim_args (snd e)) (filter ?E ?H)) =
       {cid. \<exists>v ch. map_of ?H cid = Some v \<and> getChannel d cid = Some ch
                \<and> ChannelState.expiry ch \<noteq> 0
                \<and> ChannelState.expiry ch - now div 1000 \<le> bufferSeconds
                \<and> 0 < StoredVoucher.amount v}" (is "?L = ?R")
  proof (rule set_eqI)
    fix cid
    show "cid \<in> ?L \<longleftrightarrow> cid \<in> ?R"
    proof
      assume "cid \<in> ?L"
      then obtain k v where kv: "(k, v) \<in> set ?H" and el: "?E (k, v)"
        and cid: "cid = StoredVoucher.channelId v"
        by (auto simp: claim_args_def)
      from getHighest_entry [OF kv] cid have "k = cid" and "map_of ?H cid = Some v"
        by simp_all
      with el show "cid \<in> ?R"
        by (auto simp: expiring_def split: option.splits)
    next
      assume "cid \<in> ?R"
      then obtain v ch where look: "map_of ?H cid = Some v" and ch: "getChannel d cid = Some ch"
        and ok: "ChannelState.expiry ch \<noteq> 0" "ChannelState.expiry ch - now div 1000 \<le> bufferSeconds"
          "0 < StoredVoucher.amount v"
        by blast
      from look have mem: "(cid, v) \<in> set ?H" by (rule map_of_SomeD)
      from getHighest_entry [OF mem] have key: "StoredVoucher.channelId v = cid" by simp
      from ch ok have "?E (cid, v)" by (simp add: expiring_def)
      with mem have "(cid, v) \<in> set (filter ?E ?H)" by simp
      then have "claim_args (snd (cid, v)) \<in> set (map (\<lambda>e. claim_args (snd e)) (filter ?E ?H))"
        unfolding set_map by (rule imageI)
      then have "fst (claim_args v) \<in> ?L"
        by (intro imageI) simp
      with key show "cid \<in> ?L" by (simp add: claim_args_def)
    qed
  qed
  with att have sel: "fst ` set (attempts (claimExpiring svc now bufferSeconds d)) =
       {cid. \<exists>v ch. map_of ?H cid = Some v \<and> getChannel d cid = Some ch
                \<and> ChannelState.expiry ch \<noteq> 0
                \<and> ChannelState.expiry ch - now div 1000 \<le> bufferSeconds
                \<and> 0 < StoredVoucher.amount v}"
    by simp
  have thr: "claimExpiring (svc\<lparr>claimThreshold := t\<rparr>) now bufferSeconds d
       = claimExpiring svc now bufferSeconds d"
    by (simp add: claimExpiring_def claimExpiring_loop_claim_all claim_all_threshold)
  from att sel thr show ?thesis by blast
qed

text \<open>
  Scenario D of the specification: channel \<open>0xa1\<close> expires in 1800 seconds and is claimed
  with buffer 3600 although its amount is below the threshold; channel \<open>0xc3\<close> expires in
  7200 seconds and is skipped. The claim for \<open>0xb2\<close> is submitted and reverts.
\<close>

theorem claimExpiring_scenario_D:
  "attempts (claimExpiring demo_service demo_now 3600 demo_store) =
     [(''0xa1'', 100, 1, ''0xgood''), (''0xb2'', 50, 1, ''0xgood'')]
   \<and> StoredVoucher.amount (mk_voucher ''0xa1'' 100 1) < claimThreshold demo_service
   \<and> txHashes (claimExpiring demo_service demo_now 3600 demo_store) = [''0xtx0xa1'']"
proof -
  have sel: "filter (expiring demo_store (demo_now div 1000) 3600)
               (getHighestVoucherPerChannel demo_store)
             = [(''0xa1'', mk_voucher ''0xa1'' 100 1), (''0xb2'', mk_voucher ''0xb2'' 50 1)]"
    by code_simp
  have below: "StoredVoucher.amount (mk_voucher ''0xa1'' 100 1) < claimThreshold demo_service"
    by (simp add: mk_voucher_def demo_service_def)
  have txs: "txHashes (claimExpiring demo_service demo_now 3600 demo_store) = [''0xtx0xa1'']"
    by code_simp
  from claimExpiring_selection [of demo_service demo_now 3600 demo_store] sel below txs
  show ?thesis by (simp add: claim_args_def mk_voucher_def)
qed

text \<open>
  C6 without the condition on the channel record does not hold: channel \<open>0xd4\<close> has a
  highest unclaimed voucher of positive amount and \<open>expiry - now \<le> bufferSeconds\<close> holds
  for its expiry \<open>0\<close>, and no claim is submitted for it.
\<close>

theorem claimExpiring_skips_expiry_zero:
  "map_of (getHighestVoucherPerChannel demo_store) ''0xd4'' = Some (mk_voucher ''0xd4'' 5 1)
   \<and> map_option ChannelState.expiry (getChannel demo_store ''0xd4'') = Some 0
   \<and> 0 - demo_now div 1000 \<le> (3600 :: int)
   \<and> 0 < StoredVoucher.amount (mk_voucher ''0xd4'' 5 1)
   \<and> ''0xd4'' \<notin> fst ` set (attempts (claimExpiring demo_service demo_now 3600 demo_store))"
  by code_simp

subsection \<open>Faults of the outside calls\<close>

text \<open>
  C8, amended. \<open>validateVoucher\<close> never lets an exception out: when a conversion of the
  voucher's amount or nonce, the contract read, or (once the five checks before it have
  passed) the signature check throws, the result is invalid, carries no channel and no
  new total, and the storage is as the steps before the throw left it. The error is the
  message of the thrown \<open>Error\<close>; it is the string \<open>validation_error\<close> only when the thrown
  value is not an \<open>Error\<close>.
\<close>

theorem validateVoucher_catches:
  "(\<forall>e. BigInt (VoucherHeader.amount voucher) = Inl e \<longrightarrow>
        validateVoucher svc now d voucher requiredAmount = (caught e, d))
   \<and> (\<forall>a e. BigInt (VoucherHeader.amount voucher) = Inr a
          \<and> BigInt (VoucherHeader.nonce voucher) = Inl e \<longrightarrow>
        validateVoucher svc now d voucher requiredAmount = (caught e, d))
   \<and> (\<forall>a n e. BigInt (VoucherHeader.amount voucher) = Inr a
          \<and> BigInt (VoucherHeader.nonce voucher) = Inr n
          \<and> readContract_getChannel svc (VoucherHeader.channelId voucher) = Inl e \<longrightarrow>
        validateVoucher svc now d voucher requiredAmount = (caught e, d))
   \<and> (\<forall>a n cd e. BigInt (VoucherHeader.amount voucher) = Inr a
          \<and> BigInt (VoucherHeader.nonce voucher) = Inr n
          \<and> readContract_getChannel svc (VoucherHeader.channelId voucher) = Inr cd
          \<and> verifyTypedData svc (ChannelData.consumer cd) (chainId svc) (contractAddress svc)
               (VoucherHeader.channelId voucher) a n (VoucherHeader.signature voucher) = Inl e
          \<and> first_failing
               [(''channel_not_found'', ChannelData.consumer cd = zeroAddress),
                (''wrong_provider'',
                   toLowerCase (provider cd) \<noteq> toLowerCase (account_address svc)),
                (''insufficient_funds'',
                   a < totalCharged (fst (localChannelState now d (VoucherHeader.channelId voucher) cd))
                         + requiredAmount),
                (''exceeds_deposit'', a > ChannelData.deposit cd),
                (''invalid_nonce'',
                   \<exists>lv. lastVoucher (fst (localChannelState now d (VoucherHeader.channelId voucher) cd))
                           = Some lv \<and> n \<le> StoredVoucher.nonce lv)] = None \<longrightarrow>
        fst (validateVoucher svc now d voucher requiredAmount) = caught e)
   \<and> (\<forall>e. \<not> valid (caught e) \<and> channel (caught e) = None \<and> newTotal (caught e) = None
          \<and> error (caught e) =
               Some (case e of Error message \<Rightarrow> message | NonError \<Rightarrow> ''validation_error''))"
proof -
  have c4: "fst (validateVoucher svc now d voucher requiredAmount) = caught e"
    if "BigInt (VoucherHeader.amount voucher) = Inr a"
      and "BigInt (VoucherHeader.nonce voucher) = Inr n"
      and "readContract_getChannel svc (VoucherHeader.channelId voucher) = Inr cd"
      and "verifyTypedData svc (ChannelData.consumer cd) (chainId svc) (contractAddress svc)
               (VoucherHeader.channelId voucher) a n (VoucherHeader.signature voucher) = Inl e"
      and "first_failing
               [(''channel_not_found'', ChannelData.consumer cd = zeroAddress),
                (''wrong_provider'',
                   toLowerCase (provider cd) \<noteq> toLowerCase (account_address svc)),
                (''insufficient_funds'',
                   a < totalCharged (fst (localChannelState now d (VoucherHeader.channelId voucher) cd))
                         + requiredAmount),
                (''exceeds_deposit'', a > ChannelData.deposit cd),
                (''invalid_nonce'',
                   \<exists>lv. lastVoucher (fst (localChannelState now d (VoucherHeader.channelId voucher) cd))
                           = Some lv \<and> n \<le> StoredVoucher.nonce lv)] = None"
    for a n cd e
  proof -
    from that(5) have pass:
      "ChannelData.consumer cd \<noteq> zeroAddress"
      "toLowerCase (provider cd) = toLowerCase (account_address svc)"
      "\<not> a < totalCharged (fst (localChannelState now d (VoucherHeader.channelId voucher) cd))
                + requiredAmount"
      "\<not> a > ChannelData.deposit cd"
      "\<not> (\<exists>lv. lastVoucher (fst (localChannelState now d (VoucherHeader.channelId voucher) cd))
               = Some lv \<and> n \<le> StoredVoucher.nonce lv)"
      by (auto simp: first_failing_def split: if_splits)
    from pass(5) have
      "\<not> (case lastVoucher (fst (localChannelState now d (VoucherHeader.channelId voucher) cd)) of
            None \<Rightarrow> False | Some lv \<Rightarrow> n \<le> StoredVoucher.nonce lv)"
      by (cases "lastVoucher (fst (localChannelState now d (VoucherHeader.channelId voucher) cd))")
        simp_all
    with pass(1-4) that(4) show ?thesis
      unfolding validateVoucher_unfold [OF that(1,2,3)]
      by (simp add: Let_def)
  qed
  have c123: "(\<forall>e. BigInt (VoucherHeader.amount voucher) = Inl e \<longrightarrow>
        validateVoucher svc now d voucher requiredAmount = (caught e, d))
   \<and> (\<forall>a e. BigInt (VoucherHeader.amount voucher) = Inr a
          \<and> BigInt (VoucherHeader.nonce voucher) = Inl e \<longrightarrow>
        validateVoucher svc now d voucher requiredAmount = (caught e, d))
   \<and> (\<forall>a n e. BigInt (VoucherHeader.amount voucher) = Inr a
          \<and> BigInt (VoucherHeader.nonce voucher) = Inr n
          \<and> readContract_getChannel svc (VoucherHeader.channelId voucher) = Inl e \<longrightarrow>
        validateVoucher svc now d voucher requiredAmount = (caught e, d))"
    by (simp add: validateVoucher_def)
  have c5: "\<forall>e. \<not> valid (caught e) \<and> channel (caught e) = None \<and> newTotal (caught e) = None
          \<and> error (caught e) =
               Some (case e of Error message \<Rightarrow> message | NonError \<Rightarrow> ''validation_error'')"
    by (simp add: caught_def)
  from c123 c4 c5 show ?thesis by blast
qed

text \<open>
  C8 with the fixed string does not hold: when the contract read throws an \<open>Error\<close>, the
  error returned is its message, not \<open>validation_error\<close>.
\<close>

theorem validateVoucher_timeout_message:
  "error (fst (validateVoucher timeout_service 5 load_fresh (demo_voucher ''100000'' ''1'') 50000))
     = Some ''request timed out''
   \<and> ''request timed out'' \<noteq> ''validation_error''"
  by code_simp

theorem validateVoucher_catches_timeout:
  "fst (validateVoucher timeout_service 5 load_fresh (demo_voucher ''100000'' ''1'') 50000)
     = \<lparr>valid = False, error = Some ''request timed out'', channel = None, newTotal = None\<rparr>"
proof -
  have rd: "readContract_getChannel timeout_service
              (VoucherHeader.channelId (demo_voucher ''100000'' ''1'')) = Inl (Error ''request timed out'')"
    by (simp add: timeout_service_def)
  from validateVoucher_catches [of "demo_voucher ''100000'' ''1''" timeout_service 5 load_fresh 50000]
    demo_amount demo_nonce rd
  have "validateVoucher timeout_service 5 load_fresh (demo_voucher ''100000'' ''1'') 50000
          = (caught (Error ''request timed out''), load_fresh)"
    by blast
  then show ?thesis by (simp add: caught_def)
qed

subsection \<open>The voucher header\<close>

text \<open>
  C9, amended. \<open>parseVoucherHeader\<close> returns a voucher exactly when \<open>JSON.parse\<close> returns
  an object whose properties \<open>channelId\<close>, \<open>amount\<close>, \<open>nonce\<close> and \<open>signature\<close> are all
  present and truthy, and the voucher holds those four values; further properties of the
  object are ignored. Every other input (text that is not JSON, \<open>null\<close>, a value that is
  not an object, an object in which one of the four is missing or is \<open>0\<close>, \<open>false\<close>,
  \<open>null\<close> or the empty string) gives \<open>null\<close>.
\<close>

theorem parseVoucherHeader_accepts_iff:
  "parseVoucherHeader parse_result = Some (voucher :: json VoucherHeader) \<longleftrightarrow>
     (\<exists>ps. parse_result = Inr (JObject ps)
        \<and> map_of ps ''channelId'' = Some (VoucherHeader.channelId voucher)
        \<and> map_of ps ''amount'' = Some (VoucherHeader.amount voucher)
        \<and> map_of ps ''nonce'' = Some (VoucherHeader.nonce voucher)
        \<and> map_of ps ''signature'' = Some (VoucherHeader.signature voucher)
        \<and> truthy (VoucherHeader.channelId voucher) \<and> truthy (VoucherHeader.amount voucher)
        \<and> truthy (VoucherHeader.nonce voucher) \<and> truthy (VoucherHeader.signature voucher))"
proof (cases parse_result)
  case (Inl e)
  then show ?thesis by (simp add: parseVoucherHeader_def)
next
  case (Inr parsed)
  show ?thesis
  proof (cases parsed)
    case (JObject ps)
    have "parseVoucherHeader (Inr (JObject ps)) = Some voucher \<longleftrightarrow>
       (map_of ps ''channelId'' = Some (VoucherHeader.channelId voucher)
        \<and> map_of ps ''amount'' = Some (VoucherHeader.amount voucher)
        \<and> map_of ps ''nonce'' = Some (VoucherHeader.nonce voucher)
        \<and> map_of ps ''signature'' = Some (VoucherHeader.signature voucher)
        \<and> truthy (VoucherHeader.channelId voucher) \<and> truthy (VoucherHeader.amount voucher)
        \<and> truthy (VoucherHeader.nonce voucher) \<and> truthy (VoucherHeader.signature voucher))"
      unfolding parseVoucherHeader_def
      by (cases voucher) (auto split: option.splits)
    with Inr JObject show ?thesis by simp
  qed (simp_all add: Inr parseVoucherHeader_def)
qed

theorem parseVoucherHeader_zero_amount_rejected:
  "parseVoucherHeader (Inr header_with_zero_amount) = None"
proof (cases "parseVoucherHeader (Inr header_with_zero_amount)")
  case None
  then show ?thesis .
next
  case (Some voucher)
  from parseVoucherHeader_accepts_iff [of "Inr header_with_zero_amount" voucher] Some
  obtain ps where ps: "Inr header_with_zero_amount = (Inr (JObject ps) :: exn + json)"
    and amt: "map_of ps ''amount'' = Some (VoucherHeader.amount voucher)"
    and tr: "truthy (VoucherHeader.amount voucher)"
    by blast
  from ps amt have "VoucherHeader.amount voucher = JNumber 0"
    by (auto simp: header_with_zero_amount_def)
  with tr show ?thesis by simp
qed

text \<open>
  C9 with exactly four fields does not hold: an object with a fifth field is accepted.
\<close>

theorem parseVoucherHeader_extra_field_accepted:
  "parseVoucherHeader
     (Inr (JObject [(''channelId'', JString ''0xa1''), (''amount'', JString ''100000''),
                    (''nonce'', JString ''1''), (''signature'', JString ''0xgood''),
                    (''memo'', JString ''anything'')])) =
     Some \<lparr>VoucherHeader.channelId = JString ''0xa1'', amount = JString ''100000'',
           nonce = JString ''1'', signature = JString ''0xgood''\<rparr>"
  by code_simp

subsection \<open>Committed charges\<close>

lemma localChannelState_getChannel_other:
  "c \<noteq> cid \<Longrightarrow> getChannel (snd (localChannelState now d cid cd)) c = getChannel d c"
  by (simp add: localChannelState_def getChannel_def updateChannel_def update_conv'
      split: option.splits)

lemma localChannelState_vouchers:
  "vouchers (snd (localChannelState now d cid cd)) = vouchers d"
  by (simp add: localChannelState_def updateChannel_def split: option.splits)

lemma validate_accept:
  assumes "validateVoucher svc now d v cost = (r, d')" and "valid r"
  shows "\<exists>a n cd. BigInt (VoucherHeader.amount v) = Inr a
      \<and> BigInt (VoucherHeader.nonce v) = Inr n
      \<and> readContract_getChannel svc (VoucherHeader.channelId v) = Inr cd
      \<and> d' = snd (localChannelState now d (VoucherHeader.channelId v) cd)
      \<and> channel r = Some (fst (localChannelState now d (VoucherHeader.channelId v) cd))
      \<and> totalCharged (fst (localChannelState now d (VoucherHeader.channelId v) cd)) + cost \<le> a
      \<and> a \<le> ChannelData.deposit cd
      \<and> (\<forall>lv. lastVoucher (fst (localChannelState now d (VoucherHeader.channelId v) cd)) = Some lv
            \<longrightarrow> StoredVoucher.nonce lv < n)"
proof (cases "BigInt (VoucherHeader.amount v)")
  case (Inl e)
  with assms show ?thesis by (auto simp: validateVoucher_def caught_def)
next
  case amt: (Inr a)
  show ?thesis
  proof (cases "BigInt (VoucherHeader.nonce v)")
    case (Inl e)
    with assms amt show ?thesis by (auto simp: validateVoucher_def caught_def)
  next
    case non: (Inr n)
    show ?thesis
    proof (cases "readContract_getChannel svc (VoucherHeader.channelId v)")
      case (Inl e)
      with assms amt non show ?thesis by (auto simp: validateVoucher_def caught_def)
    next
      case rd: (Inr cd)
      from assms show ?thesis
        unfolding validateVoucher_unfold [OF amt non rd]
        by (auto simp: amt non rd Let_def reject_def caught_def
            split: if_splits sum.splits option.splits)
    qed
  qed
qed

lemma step_facts:
  assumes step: "validate_then_store svc now d v cost = Some d''"
  shows "\<exists>a n cd sv cs'.
        BigInt (VoucherHeader.amount v) = Inr a
      \<and> BigInt (VoucherHeader.nonce v) = Inr n
      \<and> readContract_getChannel svc (VoucherHeader.channelId v) = Inr cd
      \<and> a \<le> ChannelData.deposit cd
      \<and> vouchers d'' = vouchers d @ [sv]
      \<and> StoredVoucher.channelId sv = VoucherHeader.channelId v
      \<and> StoredVoucher.amount sv = a \<and> StoredVoucher.nonce sv = n
      \<and> \<not> StoredVoucher.claimed sv
      \<and> getChannel d'' (VoucherHeader.channelId v) = Some cs'
      \<and> lastVoucher cs' = Some sv
      \<and> totalCharged cs' = charged d (VoucherHeader.channelId v) + cost
      \<and> totalCharged cs' \<le> a
      \<and> ChannelState.deposit cs' =
           (case getChannel d (VoucherHeader.channelId v) of
              None \<Rightarrow> ChannelData.deposit cd | Some c0 \<Rightarrow> ChannelState.deposit c0)
      \<and> (\<forall>c0 lv. getChannel d (VoucherHeader.channelId v) = Some c0 \<and> lastVoucher c0 = Some lv
            \<longrightarrow> StoredVoucher.nonce lv < n)
      \<and> (\<forall>c. c \<noteq> VoucherHeader.channelId v \<longrightarrow> getChannel d'' c = getChannel d c)"
proof -
  let ?cid = "VoucherHeader.channelId v"
  obtain r d' where val: "validateVoucher svc now d v cost = (r, d')"
    by (cases "validateVoucher svc now d v cost")
  from step val have ok: "valid r"
    by (auto simp: validate_then_store_def split: if_splits)
  from validate_accept [OF val ok] obtain a n cd where
    amt: "BigInt (VoucherHeader.amount v) = Inr a"
    and non: "BigInt (VoucherHeader.nonce v) = Inr n"
    and rd: "readContract_getChannel svc ?cid = Inr cd"
    and d': "d' = snd (localChannelState now d ?cid cd)"
    and ch: "channel r = Some (fst (localChannelState now d ?cid cd))"
    and cover: "totalCharged (fst (localChannelState now d ?cid cd)) + cost \<le> a"
    and dep: "a \<le> ChannelData.deposit cd"
    and fresh: "\<forall>lv. lastVoucher (fst (localChannelState now d ?cid cd)) = Some lv
            \<longrightarrow> StoredVoucher.nonce lv < n"
    by blast
  let ?cs = "fst (localChannelState now d ?cid cd)"
  let ?sv = "\<lparr>StoredVoucher.channelId = ?cid, amount = a, nonce = n,
               signature = VoucherHeader.signature v,
               consumer = ChannelState.consumer ?cs,
               receivedAt = now, claimed = False, claimedAt = None, claimTxHash = None\<rparr>"
  let ?cs' = "?cs\<lparr>totalCharged := totalCharged ?cs + cost, lastVoucher := Some ?sv,
                  lastActivityAt := now\<rparr>"
  from step val ok ch amt non
  have d'': "d'' = updateChannel (storage_storeVoucher d' ?sv) ?cid ?cs'"
    by (simp add: validate_then_store_def storeVoucher_def Let_def)
  have vs: "vouchers d'' = vouchers d @ [?sv]"
    unfolding d'' d'
    by (simp add: updateChannel_def storage_storeVoucher_def localChannelState_vouchers)
  have get: "getChannel d'' ?cid = Some ?cs'"
    unfolding d'' by (simp add: getChannel_def updateChannel_def update_conv')
  have other: "\<forall>c. c \<noteq> ?cid \<longrightarrow> getChannel d'' c = getChannel d c"
  proof (intro allI impI)
    fix c assume ne: "c \<noteq> ?cid"
    have "getChannel d'' c = getChannel d' c"
      unfolding d'' using ne
      by (simp add: getChannel_def updateChannel_def storage_storeVoucher_def update_conv')
    with ne show "getChannel d'' c = getChannel d c"
      unfolding d' by (simp add: localChannelState_getChannel_other)
  qed
  have tc: "totalCharged ?cs = charged d ?cid"
    by (cases "getChannel d ?cid")
      (simp_all add: charged_def localChannelState_new localChannelState_old)
  have dp: "ChannelState.deposit ?cs =
           (case getChannel d ?cid of
              None \<Rightarrow> ChannelData.deposit cd | Some c0 \<Rightarrow> ChannelState.deposit c0)"
    by (cases "getChannel d ?cid") (simp_all add: localChannelState_new localChannelState_old)
  have lv: "\<forall>c0 lv. getChannel d ?cid = Some c0 \<and> lastVoucher c0 = Some lv
            \<longrightarrow> StoredVoucher.nonce lv < n"
    using fresh by (auto simp: localChannelState_old)
  show ?thesis
    apply (rule exI [of _ a], rule exI [of _ n], rule exI [of _ cd],
           rule exI [of _ ?sv], rule exI [of _ ?cs'])
    using amt non rd dep vs get other tc dp lv cover
    by simp
qed

lemma step_mirror:
  assumes "deposits_mirror svc d" and "validate_then_store svc now d v cost = Some d''"
  shows "deposits_mirror svc d''"
proof -
  from step_facts [OF assms(2)] obtain cd cs' where
    rd: "readContract_getChannel svc (VoucherHeader.channelId v) = Inr cd"
    and get: "getChannel d'' (VoucherHeader.channelId v) = Some cs'"
    and dp: "ChannelState.deposit cs' =
           (case getChannel d (VoucherHeader.channelId v) of
              None \<Rightarrow> ChannelData.deposit cd | Some c0 \<Rightarrow> ChannelState.deposit c0)"
    and other: "\<forall>c. c \<noteq> VoucherHeader.channelId v \<longrightarrow> getChannel d'' c = getChannel d c"
    by blast
  from assms(1) rd have "ChannelState.deposit cs' = ChannelData.deposit cd"
    unfolding dp deposits_mirror_def by (auto split: option.splits)
  with assms(1) rd get other show ?thesis
    unfolding deposits_mirror_def
    by (metis option.inject sum.inject(2))
qed

lemma step_within:
  assumes "deposits_mirror svc d" and "validate_then_store svc now d v cost = Some d''"
  shows "\<exists>cs. getChannel d'' (VoucherHeader.channelId v) = Some cs
           \<and> totalCharged cs \<le> ChannelState.deposit cs"
proof -
  from step_facts [OF assms(2)] obtain a cd cs' where
    rd: "readContract_getChannel svc (VoucherHeader.channelId v) = Inr cd"
    and le: "a \<le> ChannelData.deposit cd"
    and get: "getChannel d'' (VoucherHeader.channelId v) = Some cs'"
    and tc: "totalCharged cs' \<le> a"
    by blast
  from step_mirror [OF assms] rd get have "ChannelState.deposit cs' = ChannelData.deposit cd"
    by (simp add: deposits_mirror_def)
  with le tc get show ?thesis by simp
qed

lemma step_mono:
  assumes "validate_then_store svc now d v cost = Some d''" and "0 \<le> cost"
  shows "charged d c \<le> charged d'' c"
proof -
  from step_facts [OF assms(1)] obtain cs' where
    get: "getChannel d'' (VoucherHeader.channelId v) = Some cs'"
    and tc: "totalCharged cs' = charged d (VoucherHeader.channelId v) + cost"
    and other: "\<forall>c. c \<noteq> VoucherHeader.channelId v \<longrightarrow> getChannel d'' c = getChannel d c"
    by blast
  show ?thesis
  proof (cases "c = VoucherHeader.channelId v")
    case True
    with get tc assms(2) show ?thesis by (simp add: charged_def)
  next
    case False
    with other show ?thesis by (simp add: charged_def)
  qed
qed

lemma run_charges_append:
  "run_charges svc d (xs @ ys) =
     (case run_charges svc d xs of None \<Rightarrow> None | Some d1 \<Rightarrow> run_charges svc d1 ys)"
  by (induction xs arbitrary: d) (auto split: option.splits)

lemma run_mirror:
  "deposits_mirror svc d \<Longrightarrow> run_charges svc d steps = Some d' \<Longrightarrow> deposits_mirror svc d'"
proof (induction steps arbitrary: d)
  case Nil
  then show ?case by simp
next
  case (Cons s steps)
  obtain now v cost where s: "s = (now, v, cost)" by (cases s)
  from Cons.prems(2) s obtain d1 where
    st: "validate_then_store svc now d v cost = Some d1" and rest: "run_charges svc d1 steps = Some d'"
    by (auto split: option.splits)
  from Cons.IH [OF step_mirror [OF Cons.prems(1) st] rest] show ?case .
qed

lemma run_mono:
  "run_charges svc d steps = Some d' \<Longrightarrow> \<forall>(now, v, cost) \<in> set steps. 0 \<le> cost \<Longrightarrow>
   charged d c \<le> charged d' c"
proof (induction steps arbitrary: d)
  case Nil
  then show ?case by simp
next
  case (Cons s steps)
  obtain now v cost where s: "s = (now, v, cost)" by (cases s)
  from Cons.prems(1) s obtain d1 where
    st: "validate_then_store svc now d v cost = Some d1" and rest: "run_charges svc d1 steps = Some d'"
    by (auto split: option.splits)
  from Cons.prems(2) s have nn: "0 \<le> cost" and nns: "\<forall>(now, v, cost) \<in> set steps. 0 \<le> cost"
    by auto
  from step_mono [OF st nn, of c] Cons.IH [OF rest nns] show ?case by simp
qed

lemma run_within:
  assumes "deposits_mirror svc d" and "run_charges svc d steps = Some d'"
    and "(\<exists>cs. getChannel d c = Some cs \<and> totalCharged cs \<le> ChannelState.deposit cs)
         \<or> c \<in> (\<lambda>(now, v, cost). VoucherHeader.channelId v) ` set steps"
  shows "\<exists>cs. getChannel d' c = Some cs \<and> totalCharged cs \<le> ChannelState.deposit cs"
  using assms
proof (induction steps arbitrary: d)
  case Nil
  then show ?case by simp
next
  case (Cons s steps)
  obtain now v cost where s: "s = (now, v, cost)" by (cases s)
  from Cons.prems(2) s obtain d1 where
    st: "validate_then_store svc now d v cost = Some d1" and rest: "run_charges svc d1 steps = Some d'"
    by (auto split: option.splits)
  have m1: "deposits_mirror svc d1" by (rule step_mirror [OF Cons.prems(1) st])
  have "(\<exists>cs. getChannel d1 c = Some cs \<and> totalCharged cs \<le> ChannelState.deposit cs)
         \<or> c \<in> (\<lambda>(now, v, cost). VoucherHeader.channelId v) ` set steps"
  proof (cases "c = VoucherHeader.channelId v")
    case True
    with step_within [OF Cons.prems(1) st] show ?thesis by simp
  next
    case False
    from step_facts [OF st] have "\<forall>c. c \<noteq> VoucherHeader.channelId v \<longrightarrow> getChannel d1 c = getChannel d c"
      by blast
    with False have "getChannel d1 c = getChannel d c" by simp
    with Cons.prems(3) False s show ?thesis by auto
  qed
  from Cons.IH [OF m1 rest this] show ?case .
qed

lemma run_prefix:
  assumes "run_charges svc d steps = Some d'"
  shows "\<exists>dj. run_charges svc d (take j steps) = Some dj \<and> run_charges svc dj (drop j steps) = Some d'"
proof -
  from assms have "run_charges svc d (take j steps @ drop j steps) = Some d'" by simp
  then show ?thesis unfolding run_charges_append by (auto split: option.splits)
qed

text \<open>
  C2, amended. Take a storage whose channel records carry the deposits that the contract
  reports, and a sequence of charges with non-negative costs in which every
  \<open>storeVoucher\<close> call comes directly after the \<open>validateVoucher\<close> call that accepted the
  same voucher for the same cost, takes the channel snapshot which that call returned,
  and has no other validation or commit between the two. Then after every prefix of the
  sequence, each channel charged so far has \<open>totalCharged \<le> deposit\<close>, and for every
  channel the amount charged after a shorter prefix is at most the amount charged after
  a longer one.
\<close>

theorem totalCharged_within_deposit_and_monotone:
  assumes mirror: "deposits_mirror svc d"
    and run: "run_charges svc d steps = Some d'"
    and costs: "\<forall>(now, v, cost) \<in> set steps. 0 \<le> cost"
  shows "\<forall>j \<le> length steps. \<exists>dj.
           run_charges svc d (take j steps) = Some dj
         \<and> (\<forall>(now, v, cost) \<in> set (take j steps).
              \<exists>cs. getChannel dj (VoucherHeader.channelId v) = Some cs
                 \<and> totalCharged cs \<le> ChannelState.deposit cs)
         \<and> (\<forall>i \<le> j. \<exists>di. run_charges svc d (take i steps) = Some di
                 \<and> (\<forall>c. charged di c \<le> charged dj c))"
proof (intro allI impI)
  fix j assume "j \<le> length steps"
  from run_prefix [OF run, of j] obtain dj where
    dj: "run_charges svc d (take j steps) = Some dj" by blast
  have within: "\<forall>(now, v, cost) \<in> set (take j steps).
              \<exists>cs. getChannel dj (VoucherHeader.channelId v) = Some cs
                 \<and> totalCharged cs \<le> ChannelState.deposit cs"
  proof (clarify)
    fix now v cost assume mem: "(now, v, cost) \<in> set (take j steps)"
    then have "VoucherHeader.channelId v
        \<in> (\<lambda>(now, v, cost). VoucherHeader.channelId v) ` set (take j steps)"
      by force
    from run_within [OF mirror dj disjI2, OF this]
    show "\<exists>cs. getChannel dj (VoucherHeader.channelId v) = Some cs
                 \<and> totalCharged cs \<le> ChannelState.deposit cs" .
  qed
  have mono: "\<forall>i \<le> j. \<exists>di. run_charges svc d (take i steps) = Some di
                 \<and> (\<forall>c. charged di c \<le> charged dj c)"
  proof (intro allI impI)
    fix i assume ij: "i \<le> j"
    from run_prefix [OF dj, of i] obtain di where
      di: "run_charges svc d (take i (take j steps)) = Some di"
      and rest: "run_charges svc di (drop i (take j steps)) = Some dj"
      by blast
    from ij have ti: "take i (take j steps) = take i steps" by (simp add: min_def)
    have "\<forall>(now, v, cost) \<in> set (drop i (take j steps)). 0 \<le> cost"
      using costs by (auto dest!: in_set_dropD in_set_takeD)
    from run_mono [OF rest this] di ti
    show "\<exists>di. run_charges svc d (take i steps) = Some di \<and> (\<forall>c. charged di c \<le> charged dj c)"
      by auto
  qed
  from dj within mono
  show "\<exists>dj. run_charges svc d (take j steps) = Some dj
         \<and> (\<forall>(now, v, cost) \<in> set (take j steps).
              \<exists>cs. getChannel dj (VoucherHeader.channelId v) = Some cs
                 \<and> totalCharged cs \<le> ChannelState.deposit cs)
         \<and> (\<forall>i \<le> j. \<exists>di. run_charges svc d (take i steps) = Some di
                 \<and> (\<forall>c. charged di c \<le> charged dj c))"
    by blast
qed

lemma demo_run: "run_charges demo_service load_fresh demo_steps = Some demo_after"
  by code_simp

theorem demo_charges_within_deposit:
  "(\<exists>cs. getChannel demo_after ''0xa1'' = Some cs \<and> totalCharged cs \<le> ChannelState.deposit cs)
   \<and> charged load_fresh ''0xa1'' \<le> charged demo_after ''0xa1''"
proof -
  have mirror: "deposits_mirror demo_service load_fresh"
    by (simp add: deposits_mirror_def getChannel_def load_fresh_def)
  have costs: "\<forall>(now, v, cost) \<in> set demo_steps. 0 \<le> cost"
    by (simp add: demo_steps_def)
  have len: "2 \<le> length demo_steps" and t2: "take 2 demo_steps = demo_steps"
    and t0: "take 0 demo_steps = []"
    by (simp_all add: demo_steps_def)
  have mem: "(5, demo_voucher ''100000'' ''1'', 50000) \<in> set (take 2 demo_steps)"
    by (simp add: demo_steps_def)
  have cid: "VoucherHeader.channelId (demo_voucher ''100000'' ''1'') = ''0xa1''"
    by (simp add: demo_voucher_def)
  from totalCharged_within_deposit_and_monotone [OF mirror demo_run costs, rule_format, OF len]
  obtain dj where dj: "run_charges demo_service load_fresh (take 2 demo_steps) = Some dj"
    and within: "\<forall>(now, v, cost) \<in> set (take 2 demo_steps).
              \<exists>cs. getChannel dj (VoucherHeader.channelId v) = Some cs
                 \<and> totalCharged cs \<le> ChannelState.deposit cs"
    and mono: "\<forall>i \<le> 2. \<exists>di. run_charges demo_service load_fresh (take i demo_steps) = Some di
                 \<and> (\<forall>c. charged di c \<le> charged dj c)"
    by blast
  from dj t2 demo_run have eq: "dj = demo_after" by simp
  from within mem cid eq
  have a: "\<exists>cs. getChannel demo_after ''0xa1'' = Some cs \<and> totalCharged cs \<le> ChannelState.deposit cs"
    by fastforce
  from mono [rule_format, of 0] t0 eq
  have b: "charged load_fresh ''0xa1'' \<le> charged demo_after ''0xa1''"
    by simp
  from a b show ?thesis by blast
qed

text \<open>
  C2 without these conditions does not hold. When two requests on a new channel are both
  validated before the first is committed, both validations succeed, each commit follows
  a successful validation of its voucher and cost, and \<open>totalCharged\<close> falls from \<open>50000\<close>
  to \<open>10000\<close>: the second commit stores its own snapshot. A committed charge of cost \<open>-1\<close>
  lowers \<open>totalCharged\<close> from \<open>60000\<close> to \<open>59999\<close>. And on a record whose deposit is \<open>10\<close>
  while the contract reports \<open>1000000\<close>, a committed charge of \<open>50\<close> leaves
  \<open>totalCharged = 50\<close> above the record's deposit.
\<close>

theorem interleaved_commits_lower_totalCharged:
  "valid first_validation \<and> valid second_validation
   \<and> snd (validateVoucher demo_service 5 load_fresh first_request 50000) = load_fresh
   \<and> commit_validated 7 load_fresh first_request first_validation 50000 = Some after_first_commit
   \<and> commit_validated 8 after_first_commit second_request second_validation 10000
       = Some after_second_commit
   \<and> charged after_first_commit ''0xa1'' = 50000
   \<and> charged after_second_commit ''0xa1'' = 10000
   \<and> charged demo_after ''0xa1'' = 60000
   \<and> validate_then_store demo_service 9 demo_after (demo_voucher ''100000'' ''3'') (- 1)
       = Some after_negative_charge
   \<and> charged after_negative_charge ''0xa1'' = 59999
   \<and> validate_then_store demo_service 9 stale_deposit_store (demo_voucher ''100'' ''1'') 50
       = Some after_stale_charge
   \<and> charged after_stale_charge ''0xa1'' = 50
   \<and> map_option ChannelState.deposit (getChannel after_stale_charge ''0xa1'') = Some 10"
  by code_simp

subsection \<open>Nonces of committed vouchers\<close>

lemma run_untouched:
  "run_charges svc d steps = Some d' \<Longrightarrow>
   c \<notin> (\<lambda>(now, v, cost). VoucherHeader.channelId v) ` set steps \<Longrightarrow>
   getChannel d' c = getChannel d c"
proof (induction steps arbitrary: d)
  case Nil
  then show ?case by simp
next
  case (Cons s steps)
  obtain now v cost where s: "s = (now, v, cost)" by (cases s)
  from Cons.prems(1) s obtain d1 where
    st: "validate_then_store svc now d v cost = Some d1" and rest: "run_charges svc d1 steps = Some d'"
    by (auto split: option.splits)
  from Cons.prems(2) s have ne: "c \<noteq> VoucherHeader.channelId v"
    and nin: "c \<notin> (\<lambda>(now, v, cost). VoucherHeader.channelId v) ` set steps"
    by auto
  from step_facts [OF st] ne have "getChannel d1 c = getChannel d c" by blast
  with Cons.IH [OF rest nin] show ?case by simp
qed

lemma stored_for_channels:
  "list_all2 stored_for steps news \<Longrightarrow> of_channel c news = [] \<Longrightarrow>
   c \<notin> (\<lambda>(now, v, cost). VoucherHeader.channelId v) ` set steps"
proof (induction steps news rule: list_all2_induct)
  case Nil
  then show ?case by simp
next
  case (Cons s steps w news)
  then show ?case
    by (auto simp: stored_for_def of_channel_def split: if_splits prod.splits)
qed

lemma run_nonces:
  assumes "run_charges svc d steps = Some d'"
  shows "\<exists>news. vouchers d' = vouchers d @ news
      \<and> list_all2 stored_for steps news
      \<and> (\<forall>c. sorted_wrt (<) (map StoredVoucher.nonce (of_channel c news))
            \<and> (\<forall>cs lv. getChannel d c = Some cs \<and> lastVoucher cs = Some lv \<longrightarrow>
                  (\<forall>w \<in> set (of_channel c news). StoredVoucher.nonce lv < StoredVoucher.nonce w))
            \<and> (of_channel c news \<noteq> [] \<longrightarrow>
                  (\<exists>cs'. getChannel d' c = Some cs'
                      \<and> lastVoucher cs' = Some (last (of_channel c news)))))"
  using assms
proof (induction steps arbitrary: d)
  case Nil
  then show ?case by (simp add: of_channel_def)
next
  case (Cons s steps)
  obtain now v cost where s: "s = (now, v, cost)" by (cases s)
  let ?cid = "VoucherHeader.channelId v"
  from Cons.prems s obtain d1 where
    st: "validate_then_store svc now d v cost = Some d1" and rest: "run_charges svc d1 steps = Some d'"
    by (auto split: option.splits)
  from step_facts [OF st] obtain a n sv cs1 where
    amt: "BigInt (VoucherHeader.amount v) = Inr a"
    and non: "BigInt (VoucherHeader.nonce v) = Inr n"
    and vs1: "vouchers d1 = vouchers d @ [sv]"
    and sv: "StoredVoucher.channelId sv = ?cid" "StoredVoucher.amount sv = a"
      "StoredVoucher.nonce sv = n"
    and get1: "getChannel d1 ?cid = Some cs1" and last1: "lastVoucher cs1 = Some sv"
    and fresh: "\<forall>c0 lv. getChannel d ?cid = Some c0 \<and> lastVoucher c0 = Some lv
            \<longrightarrow> StoredVoucher.nonce lv < n"
    and other: "\<forall>c. c \<noteq> ?cid \<longrightarrow> getChannel d1 c = getChannel d c"
    by blast
  from Cons.IH [OF rest] obtain news where
    vs: "vouchers d' = vouchers d1 @ news"
    and rel: "list_all2 stored_for steps news"
    and ih: "\<And>c. sorted_wrt (<) (map StoredVoucher.nonce (of_channel c news))
            \<and> (\<forall>cs lv. getChannel d1 c = Some cs \<and> lastVoucher cs = Some lv \<longrightarrow>
                  (\<forall>w \<in> set (of_channel c news). StoredVoucher.nonce lv < StoredVoucher.nonce w))
            \<and> (of_channel c news \<noteq> [] \<longrightarrow>
                  (\<exists>cs'. getChannel d' c = Some cs'
                      \<and> lastVoucher cs' = Some (last (of_channel c news))))"
    by blast
  have after: "\<forall>w \<in> set (of_channel ?cid news). n < StoredVoucher.nonce w"
    using ih [of ?cid] get1 last1 sv(3) by auto
  have c1: "vouchers d' = vouchers d @ (sv # news)"
    by (simp add: vs vs1)
  have c2: "list_all2 stored_for (s # steps) (sv # news)"
    using rel sv amt non by (simp add: s stored_for_def)
  have c3: "sorted_wrt (<) (map StoredVoucher.nonce (of_channel c (sv # news)))
            \<and> (\<forall>cs lv. getChannel d c = Some cs \<and> lastVoucher cs = Some lv \<longrightarrow>
                  (\<forall>w \<in> set (of_channel c (sv # news)).
                     StoredVoucher.nonce lv < StoredVoucher.nonce w))
            \<and> (of_channel c (sv # news) \<noteq> [] \<longrightarrow>
                  (\<exists>cs'. getChannel d' c = Some cs'
                      \<and> lastVoucher cs' = Some (last (of_channel c (sv # news)))))" for c
  proof (cases "c = ?cid")
    case False
    with sv(1) have flt: "of_channel c (sv # news) = of_channel c news"
      by (simp add: of_channel_def)
    from False other have g: "getChannel d1 c = getChannel d c" by simp
    from ih [of c] have
      "sorted_wrt (<) (map StoredVoucher.nonce (of_channel c news))"
      "\<forall>cs lv. getChannel d1 c = Some cs \<and> lastVoucher cs = Some lv \<longrightarrow>
          (\<forall>w \<in> set (of_channel c news). StoredVoucher.nonce lv < StoredVoucher.nonce w)"
      "of_channel c news \<noteq> [] \<longrightarrow>
          (\<exists>cs'. getChannel d' c = Some cs' \<and> lastVoucher cs' = Some (last (of_channel c news)))"
      by blast+
    then show ?thesis unfolding flt g by blast
  next
    case True
    with sv(1) have flt: "of_channel c (sv # news) = sv # of_channel c news"
      by (simp add: of_channel_def)
    have after_c: "\<forall>w \<in> set (of_channel c news). n < StoredVoucher.nonce w"
      using after True by simp
    have "sorted_wrt (<) (map StoredVoucher.nonce (of_channel c news))"
      using ih [of c] by blast
    with after_c have s1: "sorted_wrt (<) (map StoredVoucher.nonce (of_channel c (sv # news)))"
      by (simp add: flt sv(3))
    have s2: "\<forall>cs lv. getChannel d c = Some cs \<and> lastVoucher cs = Some lv \<longrightarrow>
                  (\<forall>w \<in> set (of_channel c (sv # news)).
                     StoredVoucher.nonce lv < StoredVoucher.nonce w)"
    proof (intro allI impI ballI)
      fix cs lv w
      assume h: "getChannel d c = Some cs \<and> lastVoucher cs = Some lv"
        and w: "w \<in> set (of_channel c (sv # news))"
      from h fresh True have lt: "StoredVoucher.nonce lv < n" by blast
      from w flt have "w = sv \<or> w \<in> set (of_channel c news)" by auto
      then show "StoredVoucher.nonce lv < StoredVoucher.nonce w"
      proof
        assume "w = sv"
        with lt sv(3) show ?thesis by simp
      next
        assume "w \<in> set (of_channel c news)"
        with after_c have "n < StoredVoucher.nonce w" by simp
        with lt show ?thesis by simp
      qed
    qed
    have s3: "\<exists>cs'. getChannel d' c = Some cs'
                \<and> lastVoucher cs' = Some (last (of_channel c (sv # news)))"
    proof (cases "of_channel c news = []")
      case False
      with ih [of c] flt show ?thesis by simp
    next
      case empty: True
      from run_untouched [OF rest stored_for_channels [OF rel empty]]
      have "getChannel d' c = getChannel d1 c" .
      with get1 last1 True empty flt show ?thesis by simp
    qed
    from s1 s2 s3 show ?thesis by blast
  qed
  from c1 c2 c3 show ?case by blast
qed

lemma stale_nonce_not_valid:
  assumes get: "getChannel d (VoucherHeader.channelId v) = Some cs"
    and lv: "lastVoucher cs = Some lv"
    and non: "BigInt (VoucherHeader.nonce v) = Inr n"
    and stale: "n \<le> StoredVoucher.nonce lv"
  shows "\<not> valid (fst (validateVoucher svc now d v req))"
proof
  assume ok: "valid (fst (validateVoucher svc now d v req))"
  obtain r d' where val: "validateVoucher svc now d v req = (r, d')"
    by (cases "validateVoucher svc now d v req")
  with ok have "valid r" by simp
  from validate_accept [OF val this] non obtain cd where
    "\<forall>lv. lastVoucher (fst (localChannelState now d (VoucherHeader.channelId v) cd)) = Some lv
            \<longrightarrow> StoredVoucher.nonce lv < n"
    by auto
  with get lv have "StoredVoucher.nonce lv < n"
    by (simp add: localChannelState_old)
  with stale show False by simp
qed

text \<open>
  C3, amended. Take a sequence of charges in which every voucher is committed by
  \<open>storeVoucher\<close> directly after \<open>validateVoucher\<close> accepted it, on the channel snapshot
  which that call returned and with no other validation or commit between the two. Then
  the vouchers stored for one channel have strictly increasing nonces, all above the
  nonce of the channel's last voucher before the sequence, and the channel's
  \<open>lastVoucher\<close> afterwards is the last of them. In every storage, a voucher whose nonce is
  at most the nonce of the channel's last voucher is not accepted and not committed; its
  reason is \<open>invalid_nonce\<close> when the conversions and the contract read return and the
  four checks before the nonce check pass. Nothing is said about the amounts: the code
  does not compare a voucher's amount with the amount of the voucher before it.
\<close>

theorem accepted_nonces_strictly_increase:
  "(\<forall>d'. run_charges svc d steps = Some d' \<longrightarrow>
      (\<exists>news. vouchers d' = vouchers d @ news
         \<and> list_all2 stored_for steps news
         \<and> (\<forall>c. sorted_wrt (<) (map StoredVoucher.nonce (of_channel c news))
              \<and> (\<forall>cs lv. getChannel d c = Some cs \<and> lastVoucher cs = Some lv \<longrightarrow>
                    (\<forall>w \<in> set (of_channel c news).
                       StoredVoucher.nonce lv < StoredVoucher.nonce w))
              \<and> (of_channel c news \<noteq> [] \<longrightarrow>
                    (\<exists>cs'. getChannel d' c = Some cs'
                        \<and> lastVoucher cs' = Some (last (of_channel c news)))))))
   \<and> (\<forall>cs lv n. getChannel d (VoucherHeader.channelId v) = Some cs
          \<and> lastVoucher cs = Some lv
          \<and> BigInt (VoucherHeader.nonce v) = Inr n
          \<and> n \<le> StoredVoucher.nonce lv \<longrightarrow>
        \<not> valid (fst (validateVoucher svc now d v requiredAmount))
        \<and> validate_then_store svc now d v requiredAmount = None
        \<and> (\<forall>a cd. BigInt (VoucherHeader.amount v) = Inr a
              \<and> readContract_getChannel svc (VoucherHeader.channelId v) = Inr cd
              \<and> ChannelData.consumer cd \<noteq> zeroAddress
              \<and> toLowerCase (provider cd) = toLowerCase (account_address svc)
              \<and> totalCharged cs + requiredAmount \<le> a
              \<and> a \<le> ChannelData.deposit cd \<longrightarrow>
            error (fst (validateVoucher svc now d v requiredAmount)) = Some ''invalid_nonce''))"
proof (intro conjI allI impI)
  fix d' assume "run_charges svc d steps = Some d'"
  from run_nonces [OF this]
  show "\<exists>news. vouchers d' = vouchers d @ news
         \<and> list_all2 stored_for steps news
         \<and> (\<forall>c. sorted_wrt (<) (map StoredVoucher.nonce (of_channel c news))
              \<and> (\<forall>cs lv. getChannel d c = Some cs \<and> lastVoucher cs = Some lv \<longrightarrow>
                    (\<forall>w \<in> set (of_channel c news).
                       StoredVoucher.nonce lv < StoredVoucher.nonce w))
              \<and> (of_channel c news \<noteq> [] \<longrightarrow>
                    (\<exists>cs'. getChannel d' c = Some cs'
                        \<and> lastVoucher cs' = Some (last (of_channel c news)))))" .
next
  fix cs lv n
  assume h: "getChannel d (VoucherHeader.channelId v) = Some cs
          \<and> lastVoucher cs = Some lv
          \<and> BigInt (VoucherHeader.nonce v) = Inr n
          \<and> n \<le> StoredVoucher.nonce lv"
  then have get: "getChannel d (VoucherHeader.channelId v) = Some cs"
    and lv: "lastVoucher cs = Some lv"
    and non: "BigInt (VoucherHeader.nonce v) = Inr n"
    and stale: "n \<le> StoredVoucher.nonce lv"
    by simp_all
  show nv: "\<not> valid (fst (validateVoucher svc now d v requiredAmount))"
    by (rule stale_nonce_not_valid [OF get lv non stale])
  then show "validate_then_store svc now d v requiredAmount = None"
    by (cases "validateVoucher svc now d v requiredAmount") (simp add: validate_then_store_def)
  fix a cd
  assume p: "BigInt (VoucherHeader.amount v) = Inr a
              \<and> readContract_getChannel svc (VoucherHeader.channelId v) = Inr cd
              \<and> ChannelData.consumer cd \<noteq> zeroAddress
              \<and> toLowerCase (provider cd) = toLowerCase (account_address svc)
              \<and> totalCharged cs + requiredAmount \<le> a
              \<and> a \<le> ChannelData.deposit cd"
  then have amt: "BigInt (VoucherHeader.amount v) = Inr a"
    and rd: "readContract_getChannel svc (VoucherHeader.channelId v) = Inr cd"
    by simp_all
  from p stale lv localChannelState_old [OF get, of now cd]
  show "error (fst (validateVoucher svc now d v requiredAmount)) = Some ''invalid_nonce''"
    unfolding validateVoucher_unfold [OF amt non rd]
    by (simp add: Let_def reject_def)
qed

theorem demo_nonces_increase:
  "sorted_wrt (<) (map StoredVoucher.nonce (of_channel ''0xa1'' (vouchers demo_after)))
   \<and> \<not> valid (fst (validateVoucher demo_service 7 demo_after (demo_voucher ''200000'' ''2'') 50000))"
proof -
  note inst = accepted_nonces_strictly_increase
    [of demo_service load_fresh demo_steps "demo_voucher ''200000'' ''2''" 7 50000]
  from inst demo_run obtain news where
    "vouchers demo_after = vouchers load_fresh @ news"
    and "sorted_wrt (<) (map StoredVoucher.nonce (of_channel ''0xa1'' news))"
    by blast
  then have a: "sorted_wrt (<) (map StoredVoucher.nonce (of_channel ''0xa1'' (vouchers demo_after)))"
    by (simp add: load_fresh_def)
  have "map_option (\<lambda>cs. map_option StoredVoucher.nonce (lastVoucher cs))
          (getChannel demo_after ''0xa1'') = Some (Some 2)"
    by code_simp
  then obtain cs lv where get: "getChannel demo_after ''0xa1'' = Some cs"
    and lv: "lastVoucher cs = Some lv" and two: "StoredVoucher.nonce lv = 2"
    by auto
  have cid: "VoucherHeader.channelId (demo_voucher ''200000'' ''2'') = ''0xa1''"
    by (simp add: demo_voucher_def)
  have non: "BigInt (VoucherHeader.nonce (demo_voucher ''200000'' ''2'')) = Inr 2"
    by code_simp
  from accepted_nonces_strictly_increase
    [of demo_service demo_after "[]" "demo_voucher ''200000'' ''2''" 7 50000]
    get lv two cid non
  have b: "\<not> valid (fst (validateVoucher demo_service 7 demo_after (demo_voucher ''200000'' ''2'') 50000))"
    by simp
  from a b show ?thesis by blast
qed

text \<open>
  C3 as worded does not hold on channel \<open>0xa1\<close>. A voucher of amount \<open>80000\<close> and nonce
  \<open>2\<close> is accepted and committed after one of amount \<open>100000\<close> and nonce \<open>1\<close>, so the
  amounts decrease. A voucher that repeats nonce \<open>2\<close> with an amount that does not cover
  the required amount is rejected with \<open>insufficient_funds\<close>, not \<open>invalid_nonce\<close>. And
  when two requests on a new channel are both validated before the first is committed,
  both are accepted and committed and the stored nonces are \<open>2\<close>, then \<open>1\<close>.
\<close>

theorem lower_amount_accepted_after_higher:
  "run_charges demo_service load_fresh demo_steps = Some demo_after
   \<and> map StoredVoucher.amount (vouchers demo_after) = [100000, 80000]
   \<and> map StoredVoucher.nonce (vouchers demo_after) = [1, 2]
   \<and> error (fst (validateVoucher demo_service 7 demo_after (demo_voucher ''60000'' ''2'') 50000))
       = Some ''insufficient_funds''
   \<and> valid first_validation \<and> valid second_validation
   \<and> commit_validated 7 load_fresh first_request first_validation 50000 = Some after_first_commit
   \<and> commit_validated 8 after_first_commit second_request second_validation 10000
       = Some after_second_commit
   \<and> map StoredVoucher.nonce (vouchers after_second_commit) = [2, 1]"
  by code_simp

end
